theory Spec2Isabelle
  imports Main
begin

section \<open>Types and constants (benchmark.h, sssp.cc)\<close>

text \<open>
  \<^verbatim>\<open>typedef int32_t NodeID; typedef int32_t WeightT;\<close> (benchmark.h, the default
  branch). Vertex identifiers are indices, modelled as \<open>nat\<close>. Weights and distances
  are 32-bit signed integers, modelled as \<open>int\<close>; signed overflow is undefined
  behaviour in C++ and is an explicit failure of the model, never a wrapped value.
\<close>

type_synonym NodeID = nat
type_synonym WeightT = int
type_synonym WNode = "NodeID \<times> WeightT"

definition WeightT_max :: WeightT where
  "WeightT_max = 2 ^ 31 - 1"

definition WeightT_min :: WeightT where
  "WeightT_min = - (2 ^ 31)"

definition size_t_max :: nat where
  "size_t_max = 2 ^ 64 - 1"

definition kDistInf :: WeightT where
  "kDistInf = WeightT_max div 2"

definition kMaxBin :: nat where
  "kMaxBin = size_t_max div 2"

definition kBinSizeThreshold :: nat where
  "kBinSizeThreshold = 1000"

text \<open>
  Modelled from the spec: the graph view (graph.h is not part of the sources at hand).
  ``Immutable, read-only adjacency structure supplying per-vertex out-neighbor iteration
  as (neighbor, weight) pairs, plus vertex count and total directed edge count.''
  A graph is the list of its adjacency lists: \<open>g ! u\<close> is \<open>g.out_neigh(u)\<close>.
\<close>

type_synonym WGraph = "WNode list list"

definition num_nodes :: "WGraph \<Rightarrow> nat" where
  "num_nodes g = length g"

definition out_neigh :: "WGraph \<Rightarrow> NodeID \<Rightarrow> WNode list" where
  "out_neigh g u = g ! u"

definition num_edges_directed :: "WGraph \<Rightarrow> nat" where
  "num_edges_directed g = sum_list (map length g)"

text \<open>
  What the graph builder guarantees and the data model of the spec asks for: every
  neighbour is a vertex, every weight is a non-negative value of \<open>WeightT\<close>.
\<close>

definition wf_graph :: "WGraph \<Rightarrow> bool" where
  "wf_graph g = (\<forall>u < length g. \<forall>(v, w) \<in> set (g ! u). v < length g \<and> 0 \<le> w \<and> w \<le> WeightT_max)"

section \<open>Machine arithmetic on WeightT and size\_t\<close>

datatype error = SignedOverflow | DivByZero | LengthError | OutOfBounds

definition add_WeightT :: "WeightT \<Rightarrow> WeightT \<Rightarrow> error + WeightT" where
  "add_WeightT a b =
     (if WeightT_min \<le> a + b \<and> a + b \<le> WeightT_max then Inr (a + b) else Inl SignedOverflow)"

definition mul_WeightT :: "WeightT \<Rightarrow> WeightT \<Rightarrow> error + WeightT" where
  "mul_WeightT a b =
     (if WeightT_min \<le> a * b \<and> a * b \<le> WeightT_max then Inr (a * b) else Inl SignedOverflow)"

text \<open>The quotient of \<^verbatim>\<open>/\<close> on C++ integers is rounded towards zero.\<close>

definition quot_WeightT :: "WeightT \<Rightarrow> WeightT \<Rightarrow> WeightT" where
  "quot_WeightT a b =
     (if (a < 0) = (b < 0) then \<bar>a\<bar> div \<bar>b\<bar> else - (\<bar>a\<bar> div \<bar>b\<bar>))"

definition div_WeightT :: "WeightT \<Rightarrow> WeightT \<Rightarrow> error + WeightT" where
  "div_WeightT a b =
     (if b = 0 then Inl DivByZero
      else if a = WeightT_min \<and> b = - 1 then Inl SignedOverflow
      else Inr (quot_WeightT a b))"

text \<open>\<^verbatim>\<open>static_cast<WeightT>(curr_bin_index)\<close>: size\_t to int32, modulo \<open>2^32\<close>.\<close>

definition cast_WeightT :: "nat \<Rightarrow> WeightT" where
  "cast_WeightT n = (int n + 2 ^ 31) mod 2 ^ 32 - 2 ^ 31"

text \<open>The implicit conversion of a \<open>WeightT\<close> to \<open>size_t\<close>: modulo \<open>size_t_max + 1\<close>.\<close>

definition to_size_t :: "WeightT \<Rightarrow> nat" where
  "to_size_t q = nat (q mod (int size_t_max + 1))"

section \<open>Thread-local bins\<close>

type_synonym bins = "NodeID list list"

text \<open>
  \<open>std::vector::resize\<close>: throws \<open>length_error\<close> beyond \<open>max_size()\<close>, which for a
  vector of vectors (24 bytes each) is \<open>PTRDIFF_MAX div 24\<close>.
\<close>

definition vector_max_size :: nat where
  "vector_max_size = (2 ^ 63 - 1) div 24"

definition resize_bins :: "nat \<Rightarrow> bins \<Rightarrow> error + bins" where
  "resize_bins n bs =
     (if vector_max_size < n then Inl LengthError
      else if n \<le> length bs then Inr (take n bs)
      else Inr (bs @ replicate (n - length bs) []))"

text \<open>\<^verbatim>\<open>size_t dest_bin = new_dist / delta;\<close>\<close>

definition dest_bin_of :: "WeightT \<Rightarrow> WeightT \<Rightarrow> error + nat" where
  "dest_bin_of new_dist delta =
     (case div_WeightT new_dist delta of
        Inl e \<Rightarrow> Inl e
      | Inr q \<Rightarrow> Inr (to_size_t q))"

text \<open>
  Lines 83 to 86 of sssp.cc, after a successful compare-and-swap:
  \<^verbatim>\<open>
  size_t dest_bin = new_dist / delta;
  if (dest_bin >= local_bins.size())
    local_bins.resize(dest_bin + 1);
  local_bins[dest_bin].push_back(wn.v);
  \<close>
  \<open>dest_bin + 1\<close> is a \<open>size_t\<close> sum and wraps; indexing past the end is a failure.
\<close>

definition file_bin :: "WeightT \<Rightarrow> WeightT \<Rightarrow> NodeID \<Rightarrow> bins \<Rightarrow> error + bins" where
  "file_bin delta new_dist v bs =
     (case dest_bin_of new_dist delta of
        Inl e \<Rightarrow> Inl e
      | Inr dest_bin \<Rightarrow>
          (case (if length bs \<le> dest_bin
                 then resize_bins ((dest_bin + 1) mod (size_t_max + 1)) bs else Inr bs) of
             Inl e \<Rightarrow> Inl e
           | Inr bs' \<Rightarrow>
               if dest_bin < length bs'
               then Inr (bs'[dest_bin := bs' ! dest_bin @ [v]])
               else Inl OutOfBounds))"

section \<open>The state of a solve\<close>

text \<open>
  \<open>DeltaStep\<close> runs a team of workers (\<^verbatim>\<open>#pragma omp parallel\<close>) over shared arrays.
  The model is a transition system. A configuration holds the shared variables of
  \<open>DeltaStep\<close> and, for every worker, its program point and its private variables.
  One step of one worker performs at most one access to shared memory that another
  worker could interfere with; the interleaving is a parameter (a schedule).
\<close>

text \<open>Where \<open>RelaxEdges\<close> returns to: the drain loop at index \<open>i\<close> of a chunk ending at
  \<open>hi\<close>, or the fusion loop with the rest of \<open>curr_bin_copy\<close>.\<close>

datatype ret = RetFor nat nat | RetFuse "NodeID list"

text \<open>The locals of \<open>RelaxEdges\<close> inside the loop over \<open>g.out_neigh(u)\<close>: the vertex \<open>u\<close>,
  the current \<open>wn.v\<close> and \<open>wn.w\<close>, the neighbours still to visit, the return point.\<close>

datatype frame = Frame (fu: NodeID) (fv: NodeID) (fw: WeightT) (frest: "WNode list") (fret: ret)

datatype pc =
    LoopTop
  | ForGrab
  | ForBody nat nat
  | ReadOld frame
  | ReadNew frame WeightT
  | CasLoop frame WeightT WeightT
  | Reread frame WeightT
  | FuseTest
  | FuseBody "NodeID list"
  | Scan
  | Barrier1
  | Single
  | Promote
  | Barrier2
  | Done

record worker =
  pc :: pc
  local_bins :: bins
  iter :: nat

record config =
  dist :: "WeightT list"
  frontier :: "NodeID list"
  shared_indexes :: "nat \<times> nat"
  frontier_tails :: "nat \<times> nat"
  for_next :: nat
  single_done :: bool
  workers :: "worker list"

text \<open>The two-element arrays, read and written at \<open>iter & 1\<close>.\<close>

definition idx2 :: "'a \<times> 'a \<Rightarrow> nat \<Rightarrow> 'a" where
  "idx2 p i = (if i mod 2 = 0 then fst p else snd p)"

definition upd2 :: "'a \<times> 'a \<Rightarrow> nat \<Rightarrow> 'a \<Rightarrow> 'a \<times> 'a" where
  "upd2 p i x = (if i mod 2 = 0 then (x, snd p) else (fst p, x))"

datatype outcome = Blocked | Fail error | Next config

definition put :: "config \<Rightarrow> nat \<Rightarrow> worker \<Rightarrow> config" where
  "put c t w = c\<lparr>workers := (workers c)[t := w]\<rparr>"

definition goto :: "config \<Rightarrow> nat \<Rightarrow> worker \<Rightarrow> pc \<Rightarrow> outcome" where
  "goto c t w p = Next (put c t (w\<lparr>pc := p\<rparr>))"

section \<open>RelaxEdges\<close>

fun resume :: "ret \<Rightarrow> pc" where
  "resume (RetFor i hi) = ForBody i hi"
| "resume (RetFuse us) = FuseBody us"

text \<open>\<^verbatim>\<open>for (WNode wn : g.out_neigh(u))\<close>: the next neighbour, or the return.\<close>

fun edges_loop :: "NodeID \<Rightarrow> WNode list \<Rightarrow> ret \<Rightarrow> pc" where
  "edges_loop u [] r = resume r"
| "edges_loop u ((v, w) # es) r = ReadOld (Frame u v w es r)"

text \<open>\<^verbatim>\<open>WeightT old_dist = dist[wn.v];\<close>\<close>

definition step_ReadOld :: "config \<Rightarrow> nat \<Rightarrow> worker \<Rightarrow> frame \<Rightarrow> outcome" where
  "step_ReadOld c t w f = goto c t w (ReadNew f (dist c ! fv f))"

text \<open>\<^verbatim>\<open>WeightT new_dist = dist[u] + wn.w;\<close>\<close>

definition step_ReadNew :: "config \<Rightarrow> nat \<Rightarrow> worker \<Rightarrow> frame \<Rightarrow> WeightT \<Rightarrow> outcome" where
  "step_ReadNew c t w f old_dist =
     (case add_WeightT (dist c ! fu f) (fw f) of
        Inl e \<Rightarrow> Fail e
      | Inr new_dist \<Rightarrow> goto c t w (CasLoop f old_dist new_dist))"

text \<open>
  \<^verbatim>\<open>
  while (new_dist < old_dist) {
    if (compare_and_swap(dist[wn.v], old_dist, new_dist)) {
      size_t dest_bin = new_dist / delta; ... push_back(wn.v);
      break;
    }
    old_dist = dist[wn.v];
  }
  \<close>
  The loop test and the compare-and-swap are one step; the re-read after a failed
  swap is the next.
\<close>

definition step_CasLoop ::
  "WeightT \<Rightarrow> config \<Rightarrow> nat \<Rightarrow> worker \<Rightarrow> frame \<Rightarrow> WeightT \<Rightarrow> WeightT \<Rightarrow> outcome" where
  "step_CasLoop delta c t w f old_dist new_dist =
     (if new_dist < old_dist then
        (if dist c ! fv f = old_dist then
           (case file_bin delta new_dist (fv f) (local_bins w) of
              Inl e \<Rightarrow> Fail e
            | Inr bs \<Rightarrow>
                Next (put (c\<lparr>dist := (dist c)[fv f := new_dist]\<rparr>) t
                       (w\<lparr>local_bins := bs, pc := edges_loop (fu f) (frest f) (fret f)\<rparr>)))
         else goto c t w (Reread f new_dist))
      else goto c t w (edges_loop (fu f) (frest f) (fret f)))"

definition step_Reread :: "config \<Rightarrow> nat \<Rightarrow> worker \<Rightarrow> frame \<Rightarrow> WeightT \<Rightarrow> outcome" where
  "step_Reread c t w f new_dist = goto c t w (CasLoop f (dist c ! fv f) new_dist)"

section \<open>The driver loop of DeltaStep\<close>

text \<open>\<^verbatim>\<open>while (shared_indexes[iter & 1] != kMaxBin)\<close>\<close>

definition step_LoopTop :: "config \<Rightarrow> nat \<Rightarrow> worker \<Rightarrow> outcome" where
  "step_LoopTop c t w =
     (if idx2 (shared_indexes c) (iter w) \<noteq> kMaxBin then goto c t w ForGrab
      else goto c t w Done)"

text \<open>
  \<^verbatim>\<open>#pragma omp for nowait schedule(dynamic, 64)\<close> over \<open>0 \<le> i < curr_frontier_tail\<close>:
  a worker asks the runtime for the next chunk of 64 indices; \<open>for_next\<close> is the
  runtime's counter of handed-out indices. With no chunk left the worker goes on
  (\<open>nowait\<close>) to bucket fusion.
\<close>

definition step_ForGrab :: "config \<Rightarrow> nat \<Rightarrow> worker \<Rightarrow> outcome" where
  "step_ForGrab c t w =
     (let curr_frontier_tail = idx2 (frontier_tails c) (iter w); lo = for_next c in
      if lo < curr_frontier_tail
      then Next (put (c\<lparr>for_next := lo + 64\<rparr>) t
                  (w\<lparr>pc := ForBody lo (min (lo + 64) curr_frontier_tail)\<rparr>))
      else goto c t w FuseTest)"

text \<open>
  \<^verbatim>\<open>
  NodeID u = frontier[i];
  if (dist[u] >= delta * static_cast<WeightT>(curr_bin_index))
    RelaxEdges(g, u, delta, dist, local_bins);
  \<close>
\<close>

definition step_ForBody :: "WGraph \<Rightarrow> WeightT \<Rightarrow> config \<Rightarrow> nat \<Rightarrow> worker \<Rightarrow> nat \<Rightarrow> nat \<Rightarrow> outcome" where
  "step_ForBody g delta c t w i hi =
     (if i < hi then
        (if i < length (frontier c) then
           (let u = frontier c ! i; curr_bin_index = idx2 (shared_indexes c) (iter w) in
            case mul_WeightT delta (cast_WeightT curr_bin_index) of
              Inl e \<Rightarrow> Fail e
            | Inr lower \<Rightarrow>
                if lower \<le> dist c ! u
                then goto c t w (edges_loop u (out_neigh g u) (RetFor (i + 1) hi))
                else goto c t w (ForBody (i + 1) hi))
         else Fail OutOfBounds)
      else goto c t w ForGrab)"

text \<open>
  Bucket fusion, lines 148 to 160:
  \<^verbatim>\<open>
  while (curr_bin_index < local_bins.size() &&
         !local_bins[curr_bin_index].empty() &&
         local_bins[curr_bin_index].size() < kBinSizeThreshold) {
    vector<NodeID> curr_bin_copy = local_bins[curr_bin_index];
    local_bins[curr_bin_index].resize(0);
    for (NodeID u : curr_bin_copy)
      RelaxEdges(g, u, delta, dist, local_bins);
  }
  \<close>
\<close>

definition step_FuseTest :: "config \<Rightarrow> nat \<Rightarrow> worker \<Rightarrow> outcome" where
  "step_FuseTest c t w =
     (let curr_bin_index = idx2 (shared_indexes c) (iter w); bs = local_bins w in
      if curr_bin_index < length bs \<and> bs ! curr_bin_index \<noteq> [] \<and>
         length (bs ! curr_bin_index) < kBinSizeThreshold
      then Next (put c t (w\<lparr>local_bins := bs[curr_bin_index := []],
                            pc := FuseBody (bs ! curr_bin_index)\<rparr>))
      else goto c t w Scan)"

definition step_FuseBody :: "WGraph \<Rightarrow> config \<Rightarrow> nat \<Rightarrow> worker \<Rightarrow> NodeID list \<Rightarrow> outcome" where
  "step_FuseBody g c t w us =
     (case us of
        [] \<Rightarrow> goto c t w FuseTest
      | u # us' \<Rightarrow> goto c t w (edges_loop u (out_neigh g u) (RetFuse us')))"

text \<open>
  Next-band selection, lines 166 to 172:
  \<^verbatim>\<open>
  for (size_t i = curr_bin_index; i < local_bins.size(); i++) {
    if (!local_bins[i].empty()) {
  #pragma omp critical
      next_bin_index = min(next_bin_index, i);
      break;
    }
  }
  \<close>
  The scan reads private bins only; the update is atomic (critical section).
\<close>

definition first_nonempty :: "nat \<Rightarrow> bins \<Rightarrow> nat option" where
  "first_nonempty lo bs = find (\<lambda>i. bs ! i \<noteq> []) [lo ..< length bs]"

definition step_Scan :: "config \<Rightarrow> nat \<Rightarrow> worker \<Rightarrow> outcome" where
  "step_Scan c t w =
     (case first_nonempty (idx2 (shared_indexes c) (iter w)) (local_bins w) of
        None \<Rightarrow> goto c t w Barrier1
      | Some i \<Rightarrow>
          Next (put (c\<lparr>shared_indexes :=
                         upd2 (shared_indexes c) (iter w + 1)
                           (min (idx2 (shared_indexes c) (iter w + 1)) i)\<rparr>) t
                 (w\<lparr>pc := Barrier1\<rparr>)))"

text \<open>
  \<^verbatim>\<open>#pragma omp barrier\<close>: no worker passes before every worker has arrived; the
  release moves the whole team. The runtime's bookkeeping for the \<open>single\<close> construct
  and for the work-sharing loop is reset at the release before the construct.
\<close>

definition step_Barrier1 :: "config \<Rightarrow> outcome" where
  "step_Barrier1 c =
     (if \<forall>w \<in> set (workers c). pc w = Barrier1
      then Next (c\<lparr>single_done := False, workers := map (\<lambda>w. w\<lparr>pc := Single\<rparr>) (workers c)\<rparr>)
      else Blocked)"

text \<open>
  \<^verbatim>\<open>
  #pragma omp single nowait
  { ... curr_bin_index = kMaxBin; curr_frontier_tail = 0; }
  \<close>
  The first worker to arrive runs the block, the others skip it without waiting.
  Timing and logging are not modelled.
\<close>

definition step_Single :: "config \<Rightarrow> nat \<Rightarrow> worker \<Rightarrow> outcome" where
  "step_Single c t w =
     (if single_done c then goto c t w Promote
      else Next (put (c\<lparr>single_done := True,
                        shared_indexes := upd2 (shared_indexes c) (iter w) kMaxBin,
                        frontier_tails := upd2 (frontier_tails c) (iter w) 0\<rparr>) t
                  (w\<lparr>pc := Promote\<rparr>)))"

text \<open>
  Promotion, lines 187 to 194:
  \<^verbatim>\<open>
  if (next_bin_index < local_bins.size()) {
    size_t copy_start = fetch_and_add(next_frontier_tail,
                                      local_bins[next_bin_index].size());
    copy(local_bins[next_bin_index].begin(),
         local_bins[next_bin_index].end(), frontier.data() + copy_start);
    local_bins[next_bin_index].resize(0);
  }
  iter++;
  \<close>
  The copy writes \<open>frontier[copy_start .. copy_start + size - 1]\<close>, a range reserved for
  this worker by the fetch-and-add; a write past the capacity of \<open>frontier\<close> is a failure.
\<close>

definition write_at :: "'a list \<Rightarrow> nat \<Rightarrow> 'a list \<Rightarrow> 'a list" where
  "write_at xs k ys = take k xs @ ys @ drop (k + length ys) xs"

definition step_Promote :: "config \<Rightarrow> nat \<Rightarrow> worker \<Rightarrow> outcome" where
  "step_Promote c t w =
     (let next_bin_index = idx2 (shared_indexes c) (iter w + 1); bs = local_bins w in
      if next_bin_index < length bs then
        (let b = bs ! next_bin_index; copy_start = idx2 (frontier_tails c) (iter w + 1) in
         if b \<noteq> [] \<and> length (frontier c) < copy_start + length b then Fail OutOfBounds
         else Next (put (c\<lparr>frontier_tails :=
                             upd2 (frontier_tails c) (iter w + 1) (copy_start + length b),
                           frontier := (if b = [] then frontier c
                                        else write_at (frontier c) copy_start b)\<rparr>) t
                     (w\<lparr>local_bins := bs[next_bin_index := []], iter := iter w + 1,
                        pc := Barrier2\<rparr>)))
      else Next (put c t (w\<lparr>iter := iter w + 1, pc := Barrier2\<rparr>)))"

definition step_Barrier2 :: "config \<Rightarrow> outcome" where
  "step_Barrier2 c =
     (if \<forall>w \<in> set (workers c). pc w = Barrier2
      then Next (c\<lparr>for_next := 0, workers := map (\<lambda>w. w\<lparr>pc := LoopTop\<rparr>) (workers c)\<rparr>)
      else Blocked)"

text \<open>One step of worker \<open>t\<close>.\<close>

definition step :: "WGraph \<Rightarrow> WeightT \<Rightarrow> nat \<Rightarrow> config \<Rightarrow> outcome" where
  "step g delta t c =
     (if t < length (workers c) then
        (let w = workers c ! t in
         case pc w of
           LoopTop \<Rightarrow> step_LoopTop c t w
         | ForGrab \<Rightarrow> step_ForGrab c t w
         | ForBody i hi \<Rightarrow> step_ForBody g delta c t w i hi
         | ReadOld f \<Rightarrow> step_ReadOld c t w f
         | ReadNew f old_dist \<Rightarrow> step_ReadNew c t w f old_dist
         | CasLoop f old_dist new_dist \<Rightarrow> step_CasLoop delta c t w f old_dist new_dist
         | Reread f new_dist \<Rightarrow> step_Reread c t w f new_dist
         | FuseTest \<Rightarrow> step_FuseTest c t w
         | FuseBody us \<Rightarrow> step_FuseBody g c t w us
         | Scan \<Rightarrow> step_Scan c t w
         | Barrier1 \<Rightarrow> step_Barrier1 c
         | Single \<Rightarrow> step_Single c t w
         | Promote \<Rightarrow> step_Promote c t w
         | Barrier2 \<Rightarrow> step_Barrier2 c
         | Done \<Rightarrow> Blocked)
      else Blocked)"

text \<open>
  Lines 106 to 112 and 122 to 123: the shared state before the parallel region, and
  every worker's private state at its start. \<open>dist[source] = 0\<close> and
  \<open>frontier[0] = source\<close> are unchecked array writes.
\<close>

definition DeltaStep_init :: "WGraph \<Rightarrow> NodeID \<Rightarrow> nat \<Rightarrow> error + config" where
  "DeltaStep_init g source n =
     (if num_nodes g \<le> source then Inl OutOfBounds
      else if num_edges_directed g = 0 then Inl OutOfBounds
      else Inr \<lparr>dist = (replicate (num_nodes g) kDistInf)[source := 0],
                frontier = (replicate (num_edges_directed g) 0)[0 := source],
                shared_indexes = (0, kMaxBin),
                frontier_tails = (1, 0),
                for_next = 0,
                single_done = False,
                workers = replicate n \<lparr>pc = LoopTop, local_bins = [], iter = 0\<rparr>\<rparr>)"

text \<open>A schedule names the worker that moves next; a blocked worker does not move.\<close>

fun run :: "WGraph \<Rightarrow> WeightT \<Rightarrow> nat list \<Rightarrow> config \<Rightarrow> error + config" where
  "run g delta [] c = Inr c"
| "run g delta (t # ts) c =
     (case step g delta t c of
        Blocked \<Rightarrow> run g delta ts c
      | Fail e \<Rightarrow> Inl e
      | Next c' \<Rightarrow> run g delta ts c')"

definition all_done :: "config \<Rightarrow> bool" where
  "all_done c = list_all (\<lambda>w. pc w = Done) (workers c)"

text \<open>
  \<open>DeltaStep\<close> with a team of \<open>n\<close> workers under a schedule: \<open>None\<close> while some worker
  has not left the loop, otherwise the failure or the returned \<open>dist\<close>.
\<close>

definition DeltaStep ::
  "WGraph \<Rightarrow> NodeID \<Rightarrow> WeightT \<Rightarrow> nat \<Rightarrow> nat list \<Rightarrow> (error + WeightT list) option" where
  "DeltaStep g source delta n sched =
     (case DeltaStep_init g source n of
        Inl e \<Rightarrow> Some (Inl e)
      | Inr c0 \<Rightarrow>
          (case run g delta sched c0 of
             Inl e \<Rightarrow> Some (Inl e)
           | Inr c \<Rightarrow> if all_done c then Some (Inr (dist c)) else None))"

section \<open>Auxiliary notions for the statements\<close>

text \<open>A bin sequence grown to at least \<open>n\<close> bins by appending empty bins.\<close>

definition grown :: "nat \<Rightarrow> bins \<Rightarrow> bins" where
  "grown n bs = bs @ replicate (n - length bs) []"

text \<open>Concrete configurations and graphs used to instantiate the theorems.\<close>

definition cfg_cas :: config where
  "cfg_cas = \<lparr>dist = [0, kDistInf], frontier = [0], shared_indexes = (0, kMaxBin),
          frontier_tails = (1, 0), for_next = 64, single_done = False,
          workers = [\<lparr>pc = CasLoop (Frame 0 1 7 [] (RetFor 1 1)) kDistInf 7,
                      local_bins = [], iter = 0\<rparr>]\<rparr>"

definition cfg_cas_done :: config where
  "cfg_cas_done = \<lparr>dist = [0, 7], frontier = [0], shared_indexes = (0, kMaxBin),
          frontier_tails = (1, 0), for_next = 64, single_done = False,
          workers = [\<lparr>pc = ForBody 1 1, local_bins = [[], [1]], iter = 0\<rparr>]\<rparr>"

definition cfg_fuse :: "NodeID list \<Rightarrow> config" where
  "cfg_fuse b = \<lparr>dist = [0, 1], frontier = [0], shared_indexes = (0, kMaxBin),
          frontier_tails = (1, 0), for_next = 64, single_done = False,
          workers = [\<lparr>pc = FuseTest, local_bins = [b], iter = 0\<rparr>]\<rparr>"

definition bin_at_threshold :: "NodeID list" where
  "bin_at_threshold = replicate kBinSizeThreshold 1"

text \<open>
  Seven vertices, seven directed edges: \<open>0 \<rightarrow> 1\<close> (5), \<open>0 \<rightarrow> 2\<close> (1), \<open>2 \<rightarrow> 1\<close> (1) and
  \<open>1 \<rightarrow> 3, 4, 5, 6\<close> (10 each).
\<close>

definition graph_refile :: WGraph where
  "graph_refile = [[(1, 5), (2, 1)], [(3, 10), (4, 10), (5, 10), (6, 10)], [(1, 1)], [], [], [], []]"

text \<open>
  Ranges that hold in every configuration of a solve on a well-formed graph: vertices
  named by the frontier, the bins and the program points are vertices of the graph, the
  weights carried by a frame are non-negative, distances are non-negative, and a sum
  computed by \<open>RelaxEdges\<close> is a non-negative \<open>WeightT\<close>.
\<close>

definition rng_frame :: "WGraph \<Rightarrow> frame \<Rightarrow> bool" where
  "rng_frame g f =
     (fu f < length g \<and> fv f < length g \<and> 0 \<le> fw f
      \<and> (\<forall>e \<in> set (frest f). fst e < length g \<and> 0 \<le> snd e)
      \<and> (case fret f of RetFor i hi \<Rightarrow> True | RetFuse us \<Rightarrow> \<forall>u \<in> set us. u < length g))"

definition rng_pc :: "WGraph \<Rightarrow> pc \<Rightarrow> bool" where
  "rng_pc g p =
     (case p of
        ReadOld f \<Rightarrow> rng_frame g f
      | ReadNew f old_dist \<Rightarrow> rng_frame g f
      | CasLoop f old_dist new_dist \<Rightarrow> rng_frame g f \<and> 0 \<le> new_dist \<and> new_dist \<le> WeightT_max
      | Reread f new_dist \<Rightarrow> rng_frame g f \<and> 0 \<le> new_dist \<and> new_dist \<le> WeightT_max
      | FuseBody us \<Rightarrow> \<forall>u \<in> set us. u < length g
      | _ \<Rightarrow> True)"

definition rng_bins :: "WGraph \<Rightarrow> bins \<Rightarrow> bool" where
  "rng_bins g bs = (\<forall>b \<in> set bs. \<forall>u \<in> set b. u < length g)"

definition rng_config :: "WGraph \<Rightarrow> config \<Rightarrow> bool" where
  "rng_config g c =
     (length (dist c) = length g \<and> (\<forall>d \<in> set (dist c). 0 \<le> d)
      \<and> (\<forall>u \<in> set (frontier c). u < length g)
      \<and> (\<forall>w \<in> set (workers c). rng_pc g (pc w) \<and> rng_bins g (local_bins w)))"

text \<open>
  Modelled from the spec: what \<open>Relax(u)\<close> does for one out-neighbour \<open>v\<close> with weight
  \<open>w\<close>, to be compared with the steps of \<open>RelaxEdges\<close>. ``Compute d\_new = D[u] + w. If
  d\_new is not smaller than D[v], nothing is changed. Otherwise install d\_new in D[v],
  ensure the worker has at least dest + 1 bins for dest = d\_new / delta (growing by
  appending empty bins) and append v to bin dest.''
\<close>

definition relax_edge_spec :: "WeightT \<Rightarrow> NodeID \<Rightarrow> WNode \<Rightarrow> WeightT list \<times> bins \<Rightarrow> WeightT list \<times> bins" where
  "relax_edge_spec delta u e s =
     (case e of (v, w) \<Rightarrow> case s of (D, bs) \<Rightarrow>
        (let d_new = D ! u + w; j = nat (d_new div delta); bs1 = grown (j + 1) bs in
         if d_new < D ! v then (D[v := d_new], bs1[j := bs1 ! j @ [v]]) else (D, bs)))"

text \<open>
  Three vertices, two edges out of vertex 0: \<open>0 \<rightarrow> 1\<close> (7) and \<open>0 \<rightarrow> 2\<close> (3); and the
  configuration of a solve from source 0 by one worker that has just entered
  \<open>RelaxEdges\<close> for vertex 0.
\<close>

definition graph_fork :: WGraph where
  "graph_fork = [[(1, 7), (2, 3)], [], []]"

definition cfg_relax :: config where
  "cfg_relax = \<lparr>dist = [0, kDistInf, kDistInf], frontier = [0, 0], shared_indexes = (0, kMaxBin),
          frontier_tails = (1, 0), for_next = 64, single_done = False,
          workers = [\<lparr>pc = ReadOld (Frame 0 1 7 [(2, 3)] (RetFor 1 1)),
                      local_bins = [], iter = 0\<rparr>]\<rparr>"

section \<open>Evaluation on concrete inputs\<close>

lemmas arith_defs = add_WeightT_def mul_WeightT_def div_WeightT_def quot_WeightT_def
  cast_WeightT_def to_size_t_def WeightT_max_def WeightT_min_def kMaxBin_def size_t_max_def
  kDistInf_def kBinSizeThreshold_def vector_max_size_def

lemmas step_defs = step_def step_LoopTop_def step_ForGrab_def step_ForBody_def
  step_ReadOld_def step_ReadNew_def step_CasLoop_def step_Reread_def step_FuseTest_def
  step_FuseBody_def step_Scan_def step_Barrier1_def step_Single_def step_Promote_def
  step_Barrier2_def goto_def put_def idx2_def upd2_def file_bin_def dest_bin_of_def
  resize_bins_def first_nonempty_def write_at_def out_neigh_def num_nodes_def
  num_edges_directed_def all_done_def DeltaStep_def DeltaStep_init_def

lemma replicate_numeral_Cons: "replicate (numeral k) x = x # replicate (pred_numeral k) x"
  by (simp add: numeral_eq_Suc)

section \<open>The relaxation sum and the sentinel\<close>

lemma kDistInf_value: "kDistInf = 1073741823"
  by (simp add: kDistInf_def WeightT_max_def)

text \<open>
  Claim C9, as stated, fails: an edge weight is any non-negative \<open>WeightT\<close>, and with
  \<open>w = WeightT_max\<close> the sum \<open>kDistInf + w\<close> leaves the range of \<open>WeightT\<close>; so does
  \<open>1 + w\<close> for the distance \<open>1\<close> that a solve installs on the graph
  \<open>0 \<rightarrow> 1\<close> (weight 1), \<open>1 \<rightarrow> 2\<close> (weight \<open>2^31 - 1\<close>), which then fails.
\<close>

theorem relax_sum_overflow_counterexample:
  "0 \<le> WeightT_max \<and> add_WeightT kDistInf WeightT_max = Inl SignedOverflow
   \<and> add_WeightT 1 WeightT_max = Inl SignedOverflow
   \<and> DeltaStep [[(1, 1)], [(2, 2147483647)], []] 0 1 1 (replicate 19 0) = Some (Inl SignedOverflow)"
  by (simp add: arith_defs step_defs replicate_numeral_Cons)

text \<open>
  Claim C9, amended: for every distance \<open>0 \<le> d \<le> kDistInf\<close> and every edge weight
  \<open>0 \<le> w \<le> WeightT_max - kDistInf\<close> (that is \<open>w \<le> kDistInf + 1\<close>) the relaxation sum
  \<open>d + w\<close> does not overflow \<open>WeightT\<close>, and \<open>kDistInf + w \<ge> kDistInf\<close> is computed
  without overflow.
\<close>

theorem relax_sum_no_overflow:
  assumes "0 \<le> d" and "d \<le> kDistInf" and "0 \<le> w" and "w \<le> WeightT_max - kDistInf"
  shows "add_WeightT d w = Inr (d + w) \<and> add_WeightT kDistInf w = Inr (kDistInf + w)
         \<and> kDistInf \<le> kDistInf + w"
  using assms by (simp add: add_WeightT_def kDistInf_def WeightT_max_def WeightT_min_def)

theorem relax_sum_no_overflow_witness:
  "add_WeightT 5 1073741824 = Inr (5 + 1073741824)
   \<and> add_WeightT kDistInf 1073741824 = Inr (kDistInf + 1073741824)
   \<and> kDistInf \<le> kDistInf + 1073741824"
  using relax_sum_no_overflow [of 5 1073741824]
  by (simp add: kDistInf_def WeightT_max_def)

section \<open>Bin filing\<close>

lemma int_div_le_self: "0 \<le> d \<Longrightarrow> 0 < delta \<Longrightarrow> d div delta \<le> (d::int)"
  using zdiv_mono2 [of d 1 delta] by simp

lemma dest_bin_of_pos:
  assumes "0 < delta" and "0 \<le> d" and "d \<le> WeightT_max"
  shows "dest_bin_of d delta = Inr (nat (d div delta))"
proof -
  have q: "0 \<le> d div delta" "d div delta \<le> d"
    using assms by (simp_all add: pos_imp_zdiv_nonneg_iff int_div_le_self)
  have "d div delta < int size_t_max + 1"
    using q assms(3) by (simp add: WeightT_max_def size_t_max_def)
  then show ?thesis using assms q
    by (simp add: dest_bin_of_def div_WeightT_def quot_WeightT_def to_size_t_def WeightT_min_def)
qed

lemma file_bin_pos:
  assumes "0 < delta" and "0 \<le> d" and "d \<le> WeightT_max"
  shows "file_bin delta d v bs =
           Inr ((grown (nat (d div delta) + 1) bs)
                  [nat (d div delta) := grown (nat (d div delta) + 1) bs ! nat (d div delta) @ [v]])"
proof -
  let ?k = "nat (d div delta)"
  have "d div delta \<le> d" using assms by (simp add: int_div_le_self)
  then have k: "?k < 2 ^ 31" using assms by (simp add: WeightT_max_def)
  then have k1: "(?k + 1) mod (size_t_max + 1) = ?k + 1" by (simp add: size_t_max_def)
  have k2: "\<not> vector_max_size < ?k + 1" using k by (simp add: vector_max_size_def)
  show ?thesis
    unfolding file_bin_def dest_bin_of_pos [OF assms]
    using k2 by (auto simp: resize_bins_def grown_def k1 simp del: One_nat_def)
qed

lemma grown_props:
  "length (grown n bs) = max (length bs) n"
  "j < length (grown n bs) \<Longrightarrow> grown n bs ! j = (if j < length bs then bs ! j else [])"
  by (auto simp: grown_def nth_append)

lemma quot_neg_delta:
  assumes "delta < 0" and "0 \<le> d"
  shows "quot_WeightT d delta = - (d div (- delta))"
  using assms by (auto simp: quot_WeightT_def)

lemma dest_bin_of_neg_small:
  assumes "delta < 0" and "0 \<le> d" and "d < - delta"
  shows "dest_bin_of d delta = Inr 0"
  using assms
  by (simp add: dest_bin_of_def div_WeightT_def quot_neg_delta to_size_t_def WeightT_min_def)

lemma dest_bin_of_neg_large:
  assumes "delta < 0" and "- delta \<le> d" and "d \<le> WeightT_max"
  shows "\<exists>k. dest_bin_of d delta = Inr k \<and> size_t_max - nat WeightT_max < k \<and> k \<le> size_t_max"
proof -
  let ?q = "d div (- delta)"
  have d0: "0 \<le> d" using assms by simp
  have "0 < ?q" using assms(1,2) by (simp add: pos_imp_zdiv_pos_iff)
  then have q1: "1 \<le> ?q" by simp
  have q2: "?q \<le> d" using d0 assms(1) by (simp add: int_div_le_self)
  have m: "(- ?q) mod (int size_t_max + 1) = int size_t_max + 1 - ?q"
    using q1 q2 assms(3)
    by (simp add: size_t_max_def WeightT_max_def zmod_zminus1_eq_if)
  have "dest_bin_of d delta = Inr (nat (int size_t_max + 1 - ?q))"
    using assms d0
    by (simp add: dest_bin_of_def div_WeightT_def quot_neg_delta to_size_t_def m WeightT_min_def)
  moreover have "size_t_max - nat WeightT_max < nat (int size_t_max + 1 - ?q)"
    using q1 q2 assms(3) by (simp add: size_t_max_def WeightT_max_def)
  moreover have "nat (int size_t_max + 1 - ?q) \<le> size_t_max"
    using q1 by (simp add: size_t_max_def)
  ultimately show ?thesis by blast
qed

lemma file_bin_neg_large:
  assumes "delta < 0" and "- delta \<le> d" and "d \<le> WeightT_max"
    and "length bs \<le> vector_max_size"
  shows "file_bin delta d v bs = Inl OutOfBounds \<or> file_bin delta d v bs = Inl LengthError"
proof -
  from dest_bin_of_neg_large [OF assms(1-3)] obtain k where
    k: "dest_bin_of d delta = Inr k" "size_t_max - nat WeightT_max < k" "k \<le> size_t_max"
    by blast
  have big: "vector_max_size < k" "length bs \<le> k"
    using k(2) assms(4) by (simp_all add: size_t_max_def WeightT_max_def vector_max_size_def)
  show ?thesis
  proof (cases "k = size_t_max")
    case True
    then show ?thesis using k big
      by (simp add: file_bin_def resize_bins_def)
  next
    case False
    then have "(k + 1) mod (size_t_max + 1) = k + 1" using k(3) by simp
    then show ?thesis using k big
      by (simp add: file_bin_def resize_bins_def)
  qed
qed

section \<open>Ranges along a solve\<close>

lemma put_simps:
  "dist (put c t w) = dist c"
  "frontier (put c t w) = frontier c"
  "shared_indexes (put c t w) = shared_indexes c"
  "frontier_tails (put c t w) = frontier_tails c"
  "for_next (put c t w) = for_next c"
  "single_done (put c t w) = single_done c"
  "workers (put c t w) = (workers c)[t := w]"
  by (simp_all add: put_def)

lemma Ball_list_update:
  assumes "\<forall>x \<in> set xs. P x" and "P y"
  shows "\<forall>x \<in> set (xs[i := y]). P x"
  using assms set_update_subset_insert [of xs i y] by blast

lemma rng_init:
  assumes "DeltaStep_init g s n = Inr c"
  shows "rng_config g c"
proof -
  from assms have s: "s < length g" and e: "num_edges_directed g \<noteq> 0"
    by (auto simp: DeltaStep_init_def num_nodes_def split: if_splits)
  from assms s e have c: "c = \<lparr>dist = (replicate (length g) kDistInf)[s := 0],
                frontier = (replicate (num_edges_directed g) 0)[0 := s],
                shared_indexes = (0, kMaxBin), frontier_tails = (1, 0), for_next = 0,
                single_done = False,
                workers = replicate n \<lparr>pc = LoopTop, local_bins = [], iter = 0\<rparr>\<rparr>"
    by (simp add: DeltaStep_init_def num_nodes_def)
  have d: "\<forall>d \<in> set ((replicate (length g) kDistInf)[s := 0]). 0 \<le> d"
    by (rule Ball_list_update) (auto simp: kDistInf_def WeightT_max_def)
  have f: "\<forall>u \<in> set ((replicate (num_edges_directed g) 0)[0 := s]). u < length g"
    using s by (intro Ball_list_update) auto
  show ?thesis
    unfolding rng_config_def c using d f
    by (simp add: rng_pc_def rng_bins_def)
qed

lemma rng_put:
  assumes "rng_config g c" and "rng_pc g (pc w)" and "rng_bins g (local_bins w)"
  shows "rng_config g (put c t w)"
  using assms Ball_list_update [of "workers c" "\<lambda>w. rng_pc g (pc w) \<and> rng_bins g (local_bins w)" w t]
  by (simp add: rng_config_def put_simps)

lemma rng_worker:
  assumes "rng_config g c" and "t < length (workers c)"
  shows "rng_pc g (pc (workers c ! t))" "rng_bins g (local_bins (workers c ! t))"
  using assms by (auto simp: rng_config_def)

lemma rng_goto:
  assumes "rng_config g c" and "t < length (workers c)" and "rng_pc g p"
  shows "rng_config g (put c t ((workers c ! t)\<lparr>pc := p\<rparr>))"
  using assms rng_worker [OF assms(1,2)] by (intro rng_put) simp_all

lemma rng_edges_loop:
  assumes "u < length g" and "\<forall>e \<in> set es. fst e < length g \<and> 0 \<le> snd e"
    and "case r of RetFor i hi \<Rightarrow> True | RetFuse us \<Rightarrow> \<forall>u \<in> set us. u < length g"
  shows "rng_pc g (edges_loop u es r)"
proof (cases es)
  case Nil
  then show ?thesis using assms(3) by (cases r) (simp_all add: rng_pc_def)
next
  case (Cons e es')
  then show ?thesis using assms by (cases e) (simp add: rng_pc_def rng_frame_def)
qed

lemma rng_frame_next:
  assumes "rng_frame g f"
  shows "rng_pc g (edges_loop (fu f) (frest f) (fret f))"
  using assms by (intro rng_edges_loop) (simp_all add: rng_frame_def)

lemma rng_out_neigh:
  assumes "wf_graph g" and "u < length g"
  shows "\<forall>e \<in> set (out_neigh g u). fst e < length g \<and> 0 \<le> snd e"
  using assms by (fastforce simp: wf_graph_def out_neigh_def)

lemma rng_dist_update:
  assumes "rng_config g c" and "0 \<le> d"
  shows "rng_config g (c\<lparr>dist := (dist c)[v := d]\<rparr>)"
  using assms Ball_list_update [of "dist c" "\<lambda>d. 0 \<le> d" d v]
  by (simp add: rng_config_def)

lemma rng_bins_file:
  assumes "0 < delta" and "0 \<le> d" and "d \<le> WeightT_max" and "rng_bins g bs" and "v < length g"
    and "file_bin delta d v bs = Inr bs'"
  shows "rng_bins g bs'"
proof -
  let ?j = "nat (d div delta)"
  let ?g = "grown (?j + 1) bs"
  from assms(6) have bs': "bs' = ?g[?j := ?g ! ?j @ [v]]"
    by (simp add: file_bin_pos [OF assms(1-3)])
  have g: "rng_bins g ?g" using assms(4) by (auto simp: rng_bins_def grown_def)
  have j: "?j < length ?g" by (simp add: grown_props)
  then have "rng_bins g [?g ! ?j]" using g by (auto simp: rng_bins_def)
  then have "\<forall>u \<in> set (?g ! ?j @ [v]). u < length g" using assms(5) by (auto simp: rng_bins_def)
  then show ?thesis
    unfolding bs' rng_bins_def using g
    by (intro Ball_list_update) (simp_all add: rng_bins_def)
qed

lemma rng_bins_clear:
  assumes "rng_bins g bs"
  shows "rng_bins g (bs[j := []])"
  using assms unfolding rng_bins_def by (intro Ball_list_update) simp_all

lemma rng_map_pc:
  assumes "rng_config g c" and "rng_pc g p"
  shows "rng_config g (c\<lparr>workers := map (\<lambda>w. w\<lparr>pc := p\<rparr>) (workers c)\<rparr>)"
  using assms by (auto simp: rng_config_def)

lemma rng_shared:
  assumes "rng_config g c"
  shows "rng_config g (c\<lparr>for_next := a\<rparr>)" "rng_config g (c\<lparr>shared_indexes := b\<rparr>)"
    "rng_config g (c\<lparr>frontier_tails := d\<rparr>)" "rng_config g (c\<lparr>single_done := e\<rparr>)"
  using assms by (simp_all add: rng_config_def)

lemma rng_write_at:
  assumes "rng_config g c" and "\<forall>u \<in> set b. u < length g"
  shows "rng_config g (c\<lparr>frontier := write_at (frontier c) k b\<rparr>)"
  using assms by (auto simp: rng_config_def write_at_def dest: in_set_takeD in_set_dropD)

lemma add_WeightT_cases:
  "add_WeightT a b = (if WeightT_min \<le> a + b \<and> a + b \<le> WeightT_max then Inr (a + b)
                       else Inl SignedOverflow)"
  by (simp add: add_WeightT_def)

lemma rng_dist_nth:
  assumes "rng_config g c" and "v < length g"
  shows "0 \<le> dist c ! v"
  using assms by (simp add: rng_config_def)

lemma rng_bins_nth:
  assumes "rng_bins g bs" and "j < length bs"
  shows "\<forall>u \<in> set (bs ! j). u < length g"
  using assms nth_mem [of j bs] unfolding rng_bins_def by blast

lemma rng_step:
  assumes wf: "wf_graph g" and delta: "0 < delta" and inv: "rng_config g c"
    and st: "step g delta t c = Next c'"
  shows "rng_config g c'"
proof -
  from st have t: "t < length (workers c)"
    by (auto simp: step_def split: if_splits)
  define w where "w = workers c ! t"
  note rw = rng_worker [OF inv t, folded w_def]
  note gt = rng_goto [OF inv t, folded w_def]
  show ?thesis
  proof (cases "pc w")
    case LoopTop
    with st t show ?thesis
      by (auto simp: step_def Let_def w_def [symmetric] step_LoopTop_def goto_def rng_pc_def
          intro!: gt split: if_splits)
  next
    case ForGrab
    show ?thesis
    proof (cases "for_next c < idx2 (frontier_tails c) (iter w)")
      case True
      have "rng_config g (put (c\<lparr>for_next := for_next c + 64\<rparr>) t
              (w\<lparr>pc := ForBody (for_next c) (min (for_next c + 64) (idx2 (frontier_tails c) (iter w)))\<rparr>))"
        using rw by (intro rng_put rng_shared inv) (simp_all add: rng_pc_def)
      with st t ForGrab True show ?thesis
        by (simp add: step_def Let_def w_def [symmetric] step_ForGrab_def)
    next
      case False
      with st t ForGrab have "c' = put c t (w\<lparr>pc := FuseTest\<rparr>)"
        by (simp add: step_def Let_def w_def [symmetric] step_ForGrab_def goto_def)
      then show ?thesis using gt [of FuseTest] by (simp add: rng_pc_def)
    qed
  next
    case (ForBody i hi)
    show ?thesis
    proof (cases "i < hi \<and> i < length (frontier c)")
      case True
      then have u: "frontier c ! i < length g" using inv by (simp add: rng_config_def)
      have "rng_pc g (edges_loop (frontier c ! i) (out_neigh g (frontier c ! i)) (RetFor (i + 1) hi))"
        using rng_out_neigh [OF wf u] u by (intro rng_edges_loop) simp_all
      with st t ForBody True show ?thesis
        by (auto simp: step_def Let_def w_def [symmetric] step_ForBody_def goto_def rng_pc_def
            intro!: gt split: if_splits sum.splits)
    next
      case False
      with st t ForBody show ?thesis
        by (auto simp: step_def Let_def w_def [symmetric] step_ForBody_def goto_def rng_pc_def
            intro!: gt split: if_splits sum.splits)
    qed
  next
    case (ReadOld f)
    with st t rw show ?thesis
      by (auto simp: step_def Let_def w_def [symmetric] step_ReadOld_def goto_def rng_pc_def
          intro!: gt)
  next
    case (ReadNew f old_dist)
    with rw have f: "rng_frame g f" by (simp add: rng_pc_def)
    then have "0 \<le> dist c ! fu f + fw f"
      using rng_dist_nth [OF inv, of "fu f"] by (simp add: rng_frame_def)
    with st t ReadNew f show ?thesis
      by (auto simp: step_def Let_def w_def [symmetric] step_ReadNew_def goto_def rng_pc_def
          add_WeightT_cases intro!: gt split: if_splits)
  next
    case (CasLoop f old_dist new_dist)
    with rw have f: "rng_frame g f" and n: "0 \<le> new_dist" "new_dist \<le> WeightT_max"
      by (simp_all add: rng_pc_def)
    note nx = rng_frame_next [OF f]
    show ?thesis
    proof (cases "new_dist < old_dist \<and> dist c ! fv f = old_dist")
      case True
      with st t CasLoop obtain bs where
        fb: "file_bin delta new_dist (fv f) (local_bins w) = Inr bs" and
        c': "c' = put (c\<lparr>dist := (dist c)[fv f := new_dist]\<rparr>) t
                   (w\<lparr>local_bins := bs, pc := edges_loop (fu f) (frest f) (fret f)\<rparr>)"
        by (auto simp: step_def Let_def w_def [symmetric] step_CasLoop_def split: sum.splits)
      have "rng_bins g bs"
        using rng_bins_file [OF delta n rw(2) _ fb] f by (simp add: rng_frame_def)
      then show ?thesis
        unfolding c' using nx by (intro rng_put rng_dist_update inv n) simp_all
    next
      case False
      with st t CasLoop f n nx show ?thesis
        by (auto simp: step_def Let_def w_def [symmetric] step_CasLoop_def goto_def rng_pc_def
            intro!: gt split: if_splits)
    qed
  next
    case (Reread f new_dist)
    with st t rw show ?thesis
      by (auto simp: step_def Let_def w_def [symmetric] step_Reread_def goto_def rng_pc_def
          intro!: gt)
  next
    case FuseTest
    show ?thesis
    proof (cases "idx2 (shared_indexes c) (iter w) < length (local_bins w)")
      case True
      then have "\<forall>u \<in> set (local_bins w ! idx2 (shared_indexes c) (iter w)). u < length g"
        using rng_bins_nth [OF rw(2)] by simp
      with st t FuseTest rw show ?thesis
        by (auto simp: step_def Let_def w_def [symmetric] step_FuseTest_def goto_def rng_pc_def
            intro!: gt rng_put inv rng_bins_clear split: if_splits)
    next
      case False
      with st t FuseTest show ?thesis
        by (auto simp: step_def Let_def w_def [symmetric] step_FuseTest_def goto_def rng_pc_def
            intro!: gt split: if_splits)
    qed
  next
    case (FuseBody us)
    show ?thesis
    proof (cases us)
      case Nil
      with st t FuseBody show ?thesis
        by (auto simp: step_def Let_def w_def [symmetric] step_FuseBody_def goto_def rng_pc_def
            intro!: gt)
    next
      case (Cons u us')
      with rw FuseBody have u: "u < length g" and us': "\<forall>x \<in> set us'. x < length g"
        by (simp_all add: rng_pc_def)
      have "rng_pc g (edges_loop u (out_neigh g u) (RetFuse us'))"
        using rng_out_neigh [OF wf u] u us' by (intro rng_edges_loop) simp_all
      with st t FuseBody Cons show ?thesis
        by (auto simp: step_def Let_def w_def [symmetric] step_FuseBody_def goto_def
            intro!: gt)
    qed
  next
    case Scan
    show ?thesis
    proof (cases "first_nonempty (idx2 (shared_indexes c) (iter w)) (local_bins w)")
      case None
      with st t Scan have "c' = put c t (w\<lparr>pc := Barrier1\<rparr>)"
        by (simp add: step_def Let_def w_def [symmetric] step_Scan_def goto_def)
      then show ?thesis using gt [of Barrier1] by (simp add: rng_pc_def)
    next
      case (Some i)
      have "rng_config g (put (c\<lparr>shared_indexes := upd2 (shared_indexes c) (iter w + 1)
                 (min (idx2 (shared_indexes c) (iter w + 1)) i)\<rparr>) t (w\<lparr>pc := Barrier1\<rparr>))"
        using rw by (intro rng_put rng_shared inv) (simp_all add: rng_pc_def)
      with st t Scan Some show ?thesis
        by (simp add: step_def Let_def w_def [symmetric] step_Scan_def)
    qed
  next
    case Barrier1
    with st t show ?thesis
      using rng_map_pc [OF rng_shared(4) [OF inv, of False], where p = Single]
      by (auto simp: step_def Let_def w_def [symmetric] step_Barrier1_def rng_pc_def
          split: if_splits)
  next
    case Single
    show ?thesis
    proof (cases "single_done c")
      case True
      with st t Single have "c' = put c t (w\<lparr>pc := Promote\<rparr>)"
        by (simp add: step_def Let_def w_def [symmetric] step_Single_def goto_def)
      then show ?thesis using gt [of Promote] by (simp add: rng_pc_def)
    next
      case False
      have "rng_config g (c\<lparr>single_done := True,
              shared_indexes := upd2 (shared_indexes c) (iter w) kMaxBin,
              frontier_tails := upd2 (frontier_tails c) (iter w) 0\<rparr>)"
        using inv by (simp add: rng_config_def)
      then have "rng_config g (put (c\<lparr>single_done := True,
              shared_indexes := upd2 (shared_indexes c) (iter w) kMaxBin,
              frontier_tails := upd2 (frontier_tails c) (iter w) 0\<rparr>) t (w\<lparr>pc := Promote\<rparr>))"
        using rw by (intro rng_put) (simp_all add: rng_pc_def)
      with st t Single False show ?thesis
        by (simp add: step_def Let_def w_def [symmetric] step_Single_def)
    qed
  next
    case Promote
    let ?nx = "idx2 (shared_indexes c) (iter w + 1)"
    show ?thesis
    proof (cases "?nx < length (local_bins w)")
      case True
      then have b: "\<forall>u \<in> set (local_bins w ! ?nx). u < length g"
        using rng_bins_nth [OF rw(2)] by simp
      define c1 where "c1 = c\<lparr>frontier_tails := upd2 (frontier_tails c) (iter w + 1)
                 (idx2 (frontier_tails c) (iter w + 1) + length (local_bins w ! ?nx)),
               frontier := (if local_bins w ! ?nx = [] then frontier c
                            else write_at (frontier c) (idx2 (frontier_tails c) (iter w + 1))
                                   (local_bins w ! ?nx))\<rparr>"
      have "rng_config g c1"
        unfolding c1_def using rng_write_at [OF inv b] inv
        by (auto simp: rng_config_def)
      then have "rng_config g (put c1 t (w\<lparr>local_bins := (local_bins w)[?nx := []],
                    iter := iter w + 1, pc := Barrier2\<rparr>))"
        using rw(2) by (intro rng_put) (simp_all add: rng_pc_def rng_bins_clear)
      with st t Promote True show ?thesis
        by (auto simp: step_def Let_def w_def [symmetric] step_Promote_def
            c1_def split: if_splits)
    next
      case False
      have "rng_config g (put c t (w\<lparr>iter := iter w + 1, pc := Barrier2\<rparr>))"
        using rw by (intro rng_put inv) (simp_all add: rng_pc_def)
      with st t Promote False show ?thesis
        by (auto simp: step_def Let_def w_def [symmetric] step_Promote_def)
    qed
  next
    case Barrier2
    with st t show ?thesis
      using rng_map_pc [OF rng_shared(1) [OF inv, of 0], where p = LoopTop]
      by (auto simp: step_def Let_def w_def [symmetric] step_Barrier2_def rng_pc_def
          split: if_splits)
  next
    case Done
    with st t show ?thesis by (simp add: step_def Let_def w_def [symmetric])
  qed
qed

lemma rng_run:
  assumes "wf_graph g" and "0 < delta"
  shows "rng_config g c \<Longrightarrow> run g delta sched c = Inr c' \<Longrightarrow> rng_config g c'"
proof (induction sched arbitrary: c)
  case Nil
  then show ?case by simp
next
  case (Cons t ts)
  show ?case
  proof (cases "step g delta t c")
    case Blocked
    with Cons show ?thesis by simp
  next
    case (Fail e)
    with Cons.prems show ?thesis by simp
  next
    case (Next c1)
    with Cons.prems have "run g delta ts c1 = Inr c'" by simp
    from Cons.IH [OF rng_step [OF assms Cons.prems(1) Next] this] show ?thesis .
  qed
qed

section \<open>RelaxEdges, step by step and as a whole\<close>

lemma run_append:
  "run g delta (xs @ ys) c = (case run g delta xs c of Inl e \<Rightarrow> Inl e | Inr c1 \<Rightarrow> run g delta ys c1)"
  by (induction xs arbitrary: c) (auto split: outcome.splits)

lemma put_put:
  "put (put c t w1) t w2 = put c t w2"
  "put (put (c\<lparr>dist := D\<rparr>) t w1\<lparr>dist := D'\<rparr>) t w2 = put (c\<lparr>dist := D'\<rparr>) t w2"
  "put (put c t w1\<lparr>dist := D'\<rparr>) t w2 = put (c\<lparr>dist := D'\<rparr>) t w2"
  by (simp_all add: put_def)

lemma put_nth:
  "t < length (workers c) \<Longrightarrow> workers (put c t w) ! t = w"
  "length (workers (put c t w)) = length (workers c)"
  by (simp_all add: put_def)

lemma step_at_ReadOld:
  assumes "t < length (workers c)" and "pc (workers c ! t) = ReadOld f"
  shows "step g delta t c = Next (put c t ((workers c ! t)\<lparr>pc := ReadNew f (dist c ! fv f)\<rparr>))"
  using assms by (simp add: step_def Let_def step_ReadOld_def goto_def)

lemma step_at_ReadNew:
  assumes "rng_config g c" and "t < length (workers c)"
    and "pc (workers c ! t) = ReadNew f old_dist"
  shows "0 \<le> dist c ! fu f + fw f"
    and "step g delta t c =
      (if dist c ! fu f + fw f \<le> WeightT_max
       then Next (put c t ((workers c ! t)\<lparr>pc := CasLoop f old_dist (dist c ! fu f + fw f)\<rparr>))
       else Fail SignedOverflow)"
proof -
  from rng_worker(1) [OF assms(1,2)] assms(3) have f: "rng_frame g f" by (simp add: rng_pc_def)
  then show 0: "0 \<le> dist c ! fu f + fw f"
    using rng_dist_nth [OF assms(1), of "fu f"] by (simp add: rng_frame_def)
  then have "WeightT_min \<le> dist c ! fu f + fw f" by (simp add: WeightT_min_def)
  then show "step g delta t c =
      (if dist c ! fu f + fw f \<le> WeightT_max
       then Next (put c t ((workers c ! t)\<lparr>pc := CasLoop f old_dist (dist c ! fu f + fw f)\<rparr>))
       else Fail SignedOverflow)"
    using assms(2,3) by (simp add: step_def Let_def step_ReadNew_def goto_def add_WeightT_cases)
qed

lemma step_at_Reread:
  assumes "t < length (workers c)" and "pc (workers c ! t) = Reread f new_dist"
  shows "step g delta t c = Next (put c t ((workers c ! t)\<lparr>pc := CasLoop f (dist c ! fv f) new_dist\<rparr>))"
  using assms by (simp add: step_def Let_def step_Reread_def goto_def)

lemma step_at_CasLoop:
  assumes "0 < delta" and "rng_config g c" and "t < length (workers c)"
    and "pc (workers c ! t) = CasLoop f old_dist new_dist"
  shows "0 \<le> new_dist \<and> new_dist \<le> WeightT_max"
    and "step g delta t c =
      (if new_dist < old_dist then
         if dist c ! fv f = old_dist then
           Next (put (c\<lparr>dist := (dist c)[fv f := new_dist]\<rparr>) t
                  ((workers c ! t)\<lparr>local_bins :=
                       (grown (nat (new_dist div delta) + 1) (local_bins (workers c ! t)))
                         [nat (new_dist div delta) :=
                            grown (nat (new_dist div delta) + 1) (local_bins (workers c ! t))
                              ! nat (new_dist div delta) @ [fv f]],
                     pc := edges_loop (fu f) (frest f) (fret f)\<rparr>))
         else Next (put c t ((workers c ! t)\<lparr>pc := Reread f new_dist\<rparr>))
       else Next (put c t ((workers c ! t)\<lparr>pc := edges_loop (fu f) (frest f) (fret f)\<rparr>)))"
proof -
  from rng_worker(1) [OF assms(2,3)] assms(4)
  show n: "0 \<le> new_dist \<and> new_dist \<le> WeightT_max" by (simp add: rng_pc_def)
  then show "step g delta t c =
      (if new_dist < old_dist then
         if dist c ! fv f = old_dist then
           Next (put (c\<lparr>dist := (dist c)[fv f := new_dist]\<rparr>) t
                  ((workers c ! t)\<lparr>local_bins :=
                       (grown (nat (new_dist div delta) + 1) (local_bins (workers c ! t)))
                         [nat (new_dist div delta) :=
                            grown (nat (new_dist div delta) + 1) (local_bins (workers c ! t))
                              ! nat (new_dist div delta) @ [fv f]],
                     pc := edges_loop (fu f) (frest f) (fret f)\<rparr>))
         else Next (put c t ((workers c ! t)\<lparr>pc := Reread f new_dist\<rparr>))
       else Next (put c t ((workers c ! t)\<lparr>pc := edges_loop (fu f) (frest f) (fret f)\<rparr>)))"
    using assms(1,3,4)
    by (simp add: step_def Let_def step_CasLoop_def goto_def file_bin_pos del: One_nat_def)
qed

lemma relax_one_alone:
  assumes wf: "wf_graph g" and delta: "0 < delta" and inv: "rng_config g c"
    and t: "t < length (workers c)" and pc: "pc (workers c ! t) = ReadOld (Frame u v wt es r)"
  shows "run g delta [t, t, t] c =
     (if dist c ! u + wt \<le> WeightT_max
      then Inr (put (c\<lparr>dist := fst (relax_edge_spec delta u (v, wt) (dist c, local_bins (workers c ! t)))\<rparr>) t
                 ((workers c ! t)\<lparr>local_bins :=
                      snd (relax_edge_spec delta u (v, wt) (dist c, local_bins (workers c ! t))),
                    pc := edges_loop u es r\<rparr>))
      else Inl SignedOverflow)"
proof -
  define w where "w = workers c ! t"
  define f where "f = Frame u v wt es r"
  define c1 where "c1 = put c t (w\<lparr>pc := ReadNew f (dist c ! v)\<rparr>)"
  have s1: "step g delta t c = Next c1"
    using step_at_ReadOld [OF t pc [folded f_def]] by (simp add: c1_def w_def f_def)
  have inv1: "rng_config g c1" by (rule rng_step [OF wf delta inv s1])
  have t1: "t < length (workers c1)" and w1: "workers c1 ! t = w\<lparr>pc := ReadNew f (dist c ! v)\<rparr>"
    and d1: "dist c1 = dist c"
    using t by (simp_all add: c1_def put_nth put_simps)
  have pc1: "pc (workers c1 ! t) = ReadNew f (dist c ! v)" by (simp add: w1)
  show ?thesis
  proof (cases "dist c ! u + wt \<le> WeightT_max")
    case False
    then have "step g delta t c1 = Fail SignedOverflow"
      using step_at_ReadNew(2) [OF inv1 t1 pc1] by (simp add: d1 f_def)
    with s1 False show ?thesis by simp
  next
    case True
    define nd where "nd = dist c ! u + wt"
    define c2 where "c2 = put c t (w\<lparr>pc := CasLoop f (dist c ! v) nd\<rparr>)"
    have "put c1 t ((workers c1 ! t)\<lparr>pc := CasLoop f (dist c ! v) nd\<rparr>) = c2"
      using t by (simp add: c1_def c2_def put_def)
    moreover have "step g delta t c1 =
        Next (put c1 t ((workers c1 ! t)\<lparr>pc := CasLoop f (dist c ! v) nd\<rparr>))"
      using step_at_ReadNew(2) [OF inv1 t1 pc1, of delta] True
      by (simp add: d1 f_def nd_def)
    ultimately have s2: "step g delta t c1 = Next c2" by simp
    have inv2: "rng_config g c2" by (rule rng_step [OF wf delta inv1 s2])
    have t2: "t < length (workers c2)" and w2: "workers c2 ! t = w\<lparr>pc := CasLoop f (dist c ! v) nd\<rparr>"
      and d2: "dist c2 = dist c"
      using t by (simp_all add: c2_def put_nth put_simps)
    have pc2: "pc (workers c2 ! t) = CasLoop f (dist c ! v) nd" by (simp add: w2)
    have s3: "step g delta t c2 =
        Next (put (c\<lparr>dist := fst (relax_edge_spec delta u (v, wt) (dist c, local_bins w))\<rparr>) t
               (w\<lparr>local_bins := snd (relax_edge_spec delta u (v, wt) (dist c, local_bins w)),
                  pc := edges_loop u es r\<rparr>))"
    proof (cases "nd < dist c ! v")
      case lt: True
      then show ?thesis
        using step_at_CasLoop(2) [OF delta inv2 t2 pc2, unfolded w2 d2]
        by (simp add: f_def c2_def put_put relax_edge_spec_def Let_def nd_def
            del: One_nat_def)
    next
      case ge: False
      have "put (c\<lparr>dist := dist c\<rparr>) t (w\<lparr>local_bins := local_bins w, pc := edges_loop u es r\<rparr>)
            = put c t (w\<lparr>pc := edges_loop u es r\<rparr>)"
        by (simp add: put_def)
      with ge show ?thesis
        using step_at_CasLoop(2) [OF delta inv2 t2 pc2, unfolded w2 d2]
        by (simp add: f_def c2_def put_put relax_edge_spec_def Let_def nd_def
            del: One_nat_def)
    qed
    from s1 s2 s3 True show ?thesis by (simp add: w_def)
  qed
qed

lemma relax_alone:
  assumes wf: "wf_graph g" and delta: "0 < delta"
  shows "rng_config g c \<Longrightarrow> t < length (workers c) \<Longrightarrow> pc (workers c ! t) = edges_loop u es r \<Longrightarrow>
     (case run g delta (replicate (3 * length es) t) c of
        Inl e \<Rightarrow> e = SignedOverflow
      | Inr c' \<Rightarrow>
          c' = put (c\<lparr>dist := fst (fold (relax_edge_spec delta u) es
                                     (dist c, local_bins (workers c ! t)))\<rparr>) t
                 ((workers c ! t)\<lparr>local_bins :=
                      snd (fold (relax_edge_spec delta u) es (dist c, local_bins (workers c ! t))),
                    pc := resume r\<rparr>))"
proof (induction es arbitrary: c)
  case Nil
  from Nil(3) have "(workers c ! t)\<lparr>pc := resume r\<rparr> = workers c ! t"
    by (simp flip: Nil(3))
  then show ?case by (simp add: put_def)
next
  case (Cons e es)
  obtain v wt where e: "e = (v, wt)" by (cases e)
  define w where "w = workers c ! t"
  define s1 where "s1 = relax_edge_spec delta u (v, wt) (dist c, local_bins w)"
  define c3 where "c3 = put (c\<lparr>dist := fst s1\<rparr>) t (w\<lparr>local_bins := snd s1, pc := edges_loop u es r\<rparr>)"
  from Cons.prems(3) have pc: "pc (workers c ! t) = ReadOld (Frame u v wt es r)"
    by (simp add: e)
  have one: "run g delta [t, t, t] c =
      (if dist c ! u + wt \<le> WeightT_max then Inr c3 else Inl SignedOverflow)"
    unfolding c3_def s1_def w_def by (rule relax_one_alone [OF wf delta Cons.prems(1,2) pc])
  have rep: "replicate (3 * length (e # es)) t = [t, t, t] @ replicate (3 * length es) t"
    by (simp add: numeral_3_eq_3)
  show ?case
  proof (cases "dist c ! u + wt \<le> WeightT_max")
    case False
    then show ?thesis unfolding rep run_append one by simp
  next
    case True
    then have r3: "run g delta [t, t, t] c = Inr c3" unfolding one by simp
    have inv3: "rng_config g c3" by (rule rng_run [OF wf delta Cons.prems(1) r3])
    have t3: "t < length (workers c3)"
      and w3: "workers c3 ! t = w\<lparr>local_bins := snd s1, pc := edges_loop u es r\<rparr>"
      and d3: "dist c3 = fst s1"
      using Cons.prems(2) by (simp_all add: c3_def put_nth put_simps)
    have pc3: "pc (workers c3 ! t) = edges_loop u es r" by (simp add: w3)
    have fold: "fold (relax_edge_spec delta u) (e # es) (dist c, local_bins w)
                = fold (relax_edge_spec delta u) es (dist c3, local_bins (workers c3 ! t))"
      by (simp add: e s1_def [symmetric] d3 w3)
    have absorb: "put (c3\<lparr>dist := D\<rparr>) t ((workers c3 ! t)\<lparr>local_bins := B, pc := P\<rparr>)
                  = put (c\<lparr>dist := D\<rparr>) t (w\<lparr>local_bins := B, pc := P\<rparr>)" for D B P
      using Cons.prems(2) by (simp add: c3_def put_def)
    from Cons.IH [OF inv3 t3 pc3] show ?thesis
      unfolding rep run_append r3 w_def [symmetric] fold absorb by simp
  qed
qed

lemma rng_reach:
  assumes "wf_graph g" and "0 < delta"
    and "DeltaStep_init g source n = Inr c0" and "run g delta sched c0 = Inr c"
  shows "rng_config g c"
  using rng_run [OF assms(1,2) rng_init [OF assms(3)] assms(4)] .

lemma relax_call_fuse:
  assumes wf: "wf_graph g" and delta: "0 < delta" and inv: "rng_config g c"
    and t: "t < length (workers c)" and pc: "pc (workers c ! t) = FuseBody (u # us)"
  shows "case run g delta (replicate (1 + 3 * length (out_neigh g u)) t) c of
        Inl e \<Rightarrow> e = SignedOverflow
      | Inr c' \<Rightarrow>
          c' = put (c\<lparr>dist := fst (fold (relax_edge_spec delta u) (out_neigh g u)
                                     (dist c, local_bins (workers c ! t)))\<rparr>) t
                 ((workers c ! t)\<lparr>local_bins :=
                      snd (fold (relax_edge_spec delta u) (out_neigh g u)
                             (dist c, local_bins (workers c ! t))),
                    pc := FuseBody us\<rparr>)"
proof -
  define w where "w = workers c ! t"
  define c1 where "c1 = put c t (w\<lparr>pc := edges_loop u (out_neigh g u) (RetFuse us)\<rparr>)"
  have s1: "step g delta t c = Next c1"
    using t pc by (simp add: step_def Let_def step_FuseBody_def goto_def c1_def w_def)
  have inv1: "rng_config g c1" by (rule rng_step [OF wf delta inv s1])
  have t1: "t < length (workers c1)"
    and w1: "workers c1 ! t = w\<lparr>pc := edges_loop u (out_neigh g u) (RetFuse us)\<rparr>"
    and d1: "dist c1 = dist c"
    using t by (simp_all add: c1_def put_nth put_simps)
  have pc1: "pc (workers c1 ! t) = edges_loop u (out_neigh g u) (RetFuse us)" by (simp add: w1)
  have absorb: "put (c1\<lparr>dist := D\<rparr>) t ((workers c1 ! t)\<lparr>local_bins := B, pc := P\<rparr>)
                = put (c\<lparr>dist := D\<rparr>) t (w\<lparr>local_bins := B, pc := P\<rparr>)" for D B P
    using t by (simp add: c1_def put_def)
  have rep: "replicate (1 + 3 * length (out_neigh g u)) t
             = [t] @ replicate (3 * length (out_neigh g u)) t"
    by simp
  have r1: "run g delta [t] c = Inr c1" using s1 by simp
  from relax_alone [OF wf delta inv1 t1 pc1, unfolded absorb d1] show ?thesis
    unfolding rep run_append r1 by (simp add: w1 w_def cong: sum.case_cong)
qed

text \<open>
  Claim C3, for a solve on a graph with non-negative weights and \<open>delta > 0\<close> (the data
  model of the spec), at any configuration that an execution from the initial state
  reaches under any schedule. Step by step, under any interleaving: \<open>RelaxEdges\<close> reads
  \<open>old_dist = dist[v]\<close>, then computes \<open>new_dist = dist[u] + w\<close> (a non-negative sum, an
  overflow of \<open>WeightT\<close> being the only failure), then enters the loop
  \<^verbatim>\<open>while (new_dist < old_dist)\<close>: when \<open>new_dist\<close> is not smaller than the observed
  \<open>old_dist\<close> nothing changes and the next neighbour is taken; when the compare-and-swap
  fails nothing changes and \<open>dist[v]\<close> is read again; when it succeeds \<open>dist[v]\<close> becomes
  \<open>new_dist\<close>, the worker's bins are grown to \<open>max(size, new_dist / delta + 1)\<close> bins and
  \<open>v\<close> is appended exactly once, to the bin \<open>new_dist / delta\<close>, every other bin keeping
  its content. For the whole loop over the neighbours, when no other worker moves: three
  steps per neighbour bring the worker from any point of the loop to the return point
  with exactly the changes that the spec's \<open>relax_edge_spec\<close> describes, neighbour after
  neighbour, unless a sum overflows; and a call from the fusion loop for a vertex \<open>u\<close>
  does so for \<open>out_neigh g u\<close>.
\<close>

theorem RelaxEdges_files_once:
  assumes "wf_graph g" and "0 < delta"
    and "DeltaStep_init g source n = Inr c0" and "run g delta sched c0 = Inr c"
    and "t < length (workers c)" and "w = workers c ! t"
  shows "(pc w = ReadOld f \<longrightarrow>
            step g delta t c = Next (put c t (w\<lparr>pc := ReadNew f (dist c ! fv f)\<rparr>)))
       \<and> (pc w = ReadNew f old_dist \<longrightarrow>
            0 \<le> dist c ! fu f + fw f
          \<and> step g delta t c =
              (if dist c ! fu f + fw f \<le> WeightT_max
               then Next (put c t (w\<lparr>pc := CasLoop f old_dist (dist c ! fu f + fw f)\<rparr>))
               else Fail SignedOverflow))
       \<and> (pc w = Reread f new_dist \<longrightarrow>
            step g delta t c = Next (put c t (w\<lparr>pc := CasLoop f (dist c ! fv f) new_dist\<rparr>)))
       \<and> (pc w = CasLoop f old_dist new_dist \<and> \<not> new_dist < old_dist \<longrightarrow>
            step g delta t c = Next (put c t (w\<lparr>pc := edges_loop (fu f) (frest f) (fret f)\<rparr>)))
       \<and> (pc w = CasLoop f old_dist new_dist \<and> new_dist < old_dist \<and> dist c ! fv f \<noteq> old_dist \<longrightarrow>
            step g delta t c = Next (put c t (w\<lparr>pc := Reread f new_dist\<rparr>)))
       \<and> (pc w = CasLoop f old_dist new_dist \<and> new_dist < old_dist \<and> dist c ! fv f = old_dist \<longrightarrow>
            (\<exists>bs. step g delta t c =
                    Next (put (c\<lparr>dist := (dist c)[fv f := new_dist]\<rparr>) t
                           (w\<lparr>local_bins := bs, pc := edges_loop (fu f) (frest f) (fret f)\<rparr>))
                  \<and> length bs = max (length (local_bins w)) (nat (new_dist div delta) + 1)
                  \<and> (\<forall>j < length bs.
                        bs ! j = (if j < length (local_bins w) then local_bins w ! j else [])
                                 @ (if j = nat (new_dist div delta) then [fv f] else []))))
       \<and> (pc w = edges_loop u es r \<longrightarrow>
            (case run g delta (replicate (3 * length es) t) c of
               Inl e \<Rightarrow> e = SignedOverflow
             | Inr c' \<Rightarrow>
                 c' = put (c\<lparr>dist := fst (fold (relax_edge_spec delta u) es (dist c, local_bins w))\<rparr>) t
                        (w\<lparr>local_bins := snd (fold (relax_edge_spec delta u) es (dist c, local_bins w)),
                           pc := resume r\<rparr>)))
       \<and> (pc w = FuseBody (u # us) \<longrightarrow>
            (case run g delta (replicate (1 + 3 * length (out_neigh g u)) t) c of
               Inl e \<Rightarrow> e = SignedOverflow
             | Inr c' \<Rightarrow>
                 c' = put (c\<lparr>dist := fst (fold (relax_edge_spec delta u) (out_neigh g u)
                                            (dist c, local_bins w))\<rparr>) t
                        (w\<lparr>local_bins := snd (fold (relax_edge_spec delta u) (out_neigh g u)
                                                 (dist c, local_bins w)),
                           pc := FuseBody us\<rparr>)))"
proof -
  note inv = rng_reach [OF assms(1-4)]
  note t = assms(5)
  have 1: "pc w = ReadOld f \<Longrightarrow>
            step g delta t c = Next (put c t (w\<lparr>pc := ReadNew f (dist c ! fv f)\<rparr>))"
    unfolding assms(6) by (rule step_at_ReadOld [OF t])
  have 2: "pc w = ReadNew f old_dist \<Longrightarrow>
            0 \<le> dist c ! fu f + fw f
          \<and> step g delta t c =
              (if dist c ! fu f + fw f \<le> WeightT_max
               then Next (put c t (w\<lparr>pc := CasLoop f old_dist (dist c ! fu f + fw f)\<rparr>))
               else Fail SignedOverflow)"
    unfolding assms(6)
    using step_at_ReadNew(1) [OF inv t, of f old_dist] step_at_ReadNew(2) [OF inv t, of f old_dist delta]
    by blast
  have 3: "pc w = Reread f new_dist \<Longrightarrow>
            step g delta t c = Next (put c t (w\<lparr>pc := CasLoop f (dist c ! fv f) new_dist\<rparr>))"
    unfolding assms(6) by (rule step_at_Reread [OF t])
  have cas: "pc w = CasLoop f old_dist new_dist \<Longrightarrow> step g delta t c =
      (if new_dist < old_dist then
         if dist c ! fv f = old_dist then
           Next (put (c\<lparr>dist := (dist c)[fv f := new_dist]\<rparr>) t
                  (w\<lparr>local_bins :=
                       (grown (nat (new_dist div delta) + 1) (local_bins w))
                         [nat (new_dist div delta) :=
                            grown (nat (new_dist div delta) + 1) (local_bins w)
                              ! nat (new_dist div delta) @ [fv f]],
                     pc := edges_loop (fu f) (frest f) (fret f)\<rparr>))
         else Next (put c t (w\<lparr>pc := Reread f new_dist\<rparr>))
       else Next (put c t (w\<lparr>pc := edges_loop (fu f) (frest f) (fret f)\<rparr>)))"
    unfolding assms(6) by (rule step_at_CasLoop(2) [OF assms(2) inv t])
  have 4: "pc w = CasLoop f old_dist new_dist \<and> \<not> new_dist < old_dist \<Longrightarrow>
            step g delta t c = Next (put c t (w\<lparr>pc := edges_loop (fu f) (frest f) (fret f)\<rparr>))"
    using cas by simp
  have 5: "pc w = CasLoop f old_dist new_dist \<and> new_dist < old_dist \<and> dist c ! fv f \<noteq> old_dist \<Longrightarrow>
            step g delta t c = Next (put c t (w\<lparr>pc := Reread f new_dist\<rparr>))"
    using cas by simp
  have 6: "pc w = CasLoop f old_dist new_dist \<and> new_dist < old_dist \<and> dist c ! fv f = old_dist \<Longrightarrow>
            (\<exists>bs. step g delta t c =
                    Next (put (c\<lparr>dist := (dist c)[fv f := new_dist]\<rparr>) t
                           (w\<lparr>local_bins := bs, pc := edges_loop (fu f) (frest f) (fret f)\<rparr>))
                  \<and> length bs = max (length (local_bins w)) (nat (new_dist div delta) + 1)
                  \<and> (\<forall>j < length bs.
                        bs ! j = (if j < length (local_bins w) then local_bins w ! j else [])
                                 @ (if j = nat (new_dist div delta) then [fv f] else [])))"
    using cas by (auto simp: grown_props nth_list_update simp del: One_nat_def)
  have 7: "pc w = edges_loop u es r \<Longrightarrow>
            (case run g delta (replicate (3 * length es) t) c of
               Inl e \<Rightarrow> e = SignedOverflow
             | Inr c' \<Rightarrow>
                 c' = put (c\<lparr>dist := fst (fold (relax_edge_spec delta u) es (dist c, local_bins w))\<rparr>) t
                        (w\<lparr>local_bins := snd (fold (relax_edge_spec delta u) es (dist c, local_bins w)),
                           pc := resume r\<rparr>))"
    unfolding assms(6) by (rule relax_alone [OF assms(1,2) inv t])
  have 8: "pc w = FuseBody (u # us) \<Longrightarrow>
            (case run g delta (replicate (1 + 3 * length (out_neigh g u)) t) c of
               Inl e \<Rightarrow> e = SignedOverflow
             | Inr c' \<Rightarrow>
                 c' = put (c\<lparr>dist := fst (fold (relax_edge_spec delta u) (out_neigh g u)
                                            (dist c, local_bins w))\<rparr>) t
                        (w\<lparr>local_bins := snd (fold (relax_edge_spec delta u) (out_neigh g u)
                                                 (dist c, local_bins w)),
                           pc := FuseBody us\<rparr>))"
    unfolding assms(6) by (rule relax_call_fuse [OF assms(1,2) inv t])
  from 1 2 3 4 5 6 7 8 show ?thesis by blast
qed

lemma wf_graph_fork: "wf_graph graph_fork"
  by (auto simp: wf_graph_def graph_fork_def WeightT_max_def less_Suc_eq numeral_eq_Suc)

lemma reach_cfg_relax:
  "DeltaStep_init graph_fork 0 1 =
     Inr \<lparr>dist = [0, kDistInf, kDistInf], frontier = [0, 0], shared_indexes = (0, kMaxBin),
          frontier_tails = (1, 0), for_next = 0, single_done = False,
          workers = [\<lparr>pc = LoopTop, local_bins = [], iter = 0\<rparr>]\<rparr>"
  "run graph_fork 4 [0, 0, 0]
     \<lparr>dist = [0, kDistInf, kDistInf], frontier = [0, 0], shared_indexes = (0, kMaxBin),
          frontier_tails = (1, 0), for_next = 0, single_done = False,
          workers = [\<lparr>pc = LoopTop, local_bins = [], iter = 0\<rparr>]\<rparr> = Inr cfg_relax"
  by (simp_all add: graph_fork_def cfg_relax_def step_defs arith_defs)

lemma cfg_relax_worker:
  "0 < length (workers cfg_relax)"
  "workers cfg_relax ! 0 = \<lparr>pc = ReadOld (Frame 0 1 7 [(2, 3)] (RetFor 1 1)), local_bins = [], iter = 0\<rparr>"
  "dist cfg_relax = [0, kDistInf, kDistInf]"
  by (simp_all add: cfg_relax_def)

lemma run_cfg_relax:
  "run graph_fork 4 (replicate 6 0) cfg_relax =
     Inr (put (cfg_relax\<lparr>dist := [0, 7, 3]\<rparr>) 0 \<lparr>pc = ForBody 1 1, local_bins = [[2], [1]], iter = 0\<rparr>)"
  by (simp add: graph_fork_def cfg_relax_def step_defs arith_defs replicate_numeral_Cons)

theorem RelaxEdges_files_once_witness:
  "step graph_fork 4 0 cfg_relax =
     Next (put cfg_relax 0 \<lparr>pc = ReadNew (Frame 0 1 7 [(2, 3)] (RetFor 1 1)) kDistInf,
                            local_bins = [], iter = 0\<rparr>)
   \<and> (case run graph_fork 4 (replicate 6 0) cfg_relax of
        Inl e \<Rightarrow> e = SignedOverflow
      | Inr c' \<Rightarrow> c' = put (cfg_relax\<lparr>dist := [0, 7, 3]\<rparr>) 0
                         \<lparr>pc = ForBody 1 1, local_bins = [[2], [1]], iter = 0\<rparr>)
   \<and> run graph_fork 4 (replicate 6 0) cfg_relax =
       Inr (put (cfg_relax\<lparr>dist := [0, 7, 3]\<rparr>) 0
             \<lparr>pc = ForBody 1 1, local_bins = [[2], [1]], iter = 0\<rparr>)"
proof -
  have d: "(0::int) < 4" by simp
  note inst = RelaxEdges_files_once [OF wf_graph_fork d reach_cfg_relax cfg_relax_worker(1) refl,
      where f = "Frame 0 1 7 [(2, 3)] (RetFor 1 1)" and u = 0 and es = "[(1, 7), (2, 3)]"
        and r = "RetFor 1 1", unfolded cfg_relax_worker(2) worker.simps]
  from inst
  have 1: "step graph_fork 4 0 cfg_relax =
     Next (put cfg_relax 0 \<lparr>pc = ReadNew (Frame 0 1 7 [(2, 3)] (RetFor 1 1)) kDistInf,
                            local_bins = [], iter = 0\<rparr>)"
    by (simp add: cfg_relax_worker(3))
  from inst
  have 2: "case run graph_fork 4 (replicate 6 0) cfg_relax of
        Inl e \<Rightarrow> e = SignedOverflow
      | Inr c' \<Rightarrow> c' = put (cfg_relax\<lparr>dist := [0, 7, 3]\<rparr>) 0
                         \<lparr>pc = ForBody 1 1, local_bins = [[2], [1]], iter = 0\<rparr>"
    by (simp add: cfg_relax_worker(3) relax_edge_spec_def Let_def grown_def kDistInf_value
        cong: sum.case_cong)
  from 1 2 run_cfg_relax show ?thesis by blast
qed

section \<open>The distance table only decreases\<close>

lemma step_dist_cases:
  assumes "step g delta t c = Next c'"
  shows "dist c' = dist c \<or> (\<exists>v d. d < dist c ! v \<and> dist c' = (dist c)[v := d])"
proof -
  from assms have t: "t < length (workers c)"
    by (auto simp: step_def split: if_splits)
  show ?thesis
  proof (cases "pc (workers c ! t)")
    case (CasLoop f old_dist new_dist)
    with assms t have "dist c' = dist c \<or>
        (new_dist < dist c ! fv f \<and> dist c' = (dist c)[fv f := new_dist])"
      by (auto simp: step_def Let_def step_CasLoop_def goto_def put_def
          split: if_splits sum.splits)
    then show ?thesis by blast
  next
    case (ForBody i hi)
    with assms t show ?thesis
      by (auto simp: step_def step_ForBody_def goto_def put_def Let_def
          split: if_splits sum.splits)
  qed (use assms t in \<open>auto simp: step_def step_LoopTop_def step_ForGrab_def step_ReadOld_def
        step_ReadNew_def step_Reread_def step_FuseTest_def step_FuseBody_def step_Scan_def
        step_Barrier1_def step_Single_def step_Promote_def step_Barrier2_def goto_def put_def
        Let_def split: if_splits sum.splits list.splits option.splits\<close>)
qed

lemma step_dist_le:
  assumes "step g delta t c = Next c'"
  shows "length (dist c') = length (dist c) \<and> (\<forall>v. dist c' ! v \<le> dist c ! v)"
proof -
  from step_dist_cases [OF assms] show ?thesis
  proof
    assume "dist c' = dist c" then show ?thesis by simp
  next
    assume "\<exists>v d. d < dist c ! v \<and> dist c' = (dist c)[v := d]"
    then obtain v d where d: "d < dist c ! v" "dist c' = (dist c)[v := d]" by blast
    then show ?thesis
      by (cases "v < length (dist c)") (auto simp: nth_list_update list_update_beyond not_less)
  qed
qed

lemma run_dist_le:
  "run g delta sched c = Inr c' \<Longrightarrow>
     length (dist c') = length (dist c) \<and> (\<forall>v. dist c' ! v \<le> dist c ! v)"
proof (induction sched arbitrary: c)
  case Nil
  then show ?case by simp
next
  case (Cons t ts)
  show ?case
  proof (cases "step g delta t c")
    case Blocked
    with Cons show ?thesis by simp
  next
    case (Fail e)
    with Cons.prems show ?thesis by simp
  next
    case (Next c1)
    with Cons.prems have "run g delta ts c1 = Inr c'" by simp
    from Cons.IH [OF this] step_dist_le [OF Next] show ?thesis
      by (metis order_trans)
  qed
qed

text \<open>
  Claim C4: a step of any worker either leaves \<open>dist\<close> as it is or writes one entry
  \<open>dist[v]\<close> with a value strictly smaller than the one it replaces (the successful
  compare-and-swap); hence over any execution, under any schedule, \<open>dist\<close> keeps its
  length and every entry is at most what it was.
\<close>

theorem dist_only_decreases:
  "(step g delta t c = Next c1 \<longrightarrow>
      dist c1 = dist c \<or> (\<exists>v d. d < dist c ! v \<and> dist c1 = (dist c)[v := d]))
   \<and> (run g delta sched c = Inr c' \<longrightarrow>
      length (dist c') = length (dist c) \<and> (\<forall>v. dist c' ! v \<le> dist c ! v))"
  using step_dist_cases [of g delta t c c1] run_dist_le [of g delta sched c c'] by blast

lemma step_cfg_cas: "step [[(1, 7)], []] 4 0 cfg_cas = Next cfg_cas_done"
  by (simp add: cfg_cas_def cfg_cas_done_def step_defs arith_defs)

theorem dist_only_decreases_witness:
  "(dist cfg_cas_done = dist cfg_cas
      \<or> (\<exists>v d. d < dist cfg_cas ! v \<and> dist cfg_cas_done = (dist cfg_cas)[v := d]))
   \<and> length (dist cfg_cas_done) = length (dist cfg_cas)
   \<and> (\<forall>v. dist cfg_cas_done ! v \<le> dist cfg_cas ! v)"
  using dist_only_decreases [of "[[(1, 7)], []]" 4 0 cfg_cas cfg_cas_done "[0]" cfg_cas_done]
    step_cfg_cas
  by simp

section \<open>Bucket fusion\<close>

lemma first_nonempty_here:
  "lo < length bs \<Longrightarrow> bs ! lo \<noteq> [] \<Longrightarrow> first_nonempty lo bs = Some lo"
  by (simp add: first_nonempty_def upt_conv_Cons)

text \<open>
  Claim C5: with \<open>kBinSizeThreshold = 1000\<close>, a worker at the test of the fusion loop
  fuses exactly when its bin for the current band exists, is non-empty and holds fewer
  than \<open>kBinSizeThreshold\<close> vertices: the bin is cleared and its former content becomes
  the snapshot; each vertex of the snapshot in turn enters \<open>RelaxEdges\<close>, which returns
  to the rest of the snapshot, and the empty snapshot returns to the test. A missing or
  empty bin, and a bin of \<open>kBinSizeThreshold\<close> or more vertices, leave the bins as they
  are and pass to next-band selection, where the bin at or above the threshold is the
  worker's proposal.
\<close>

theorem bucket_fusion_threshold:
  assumes "t < length (workers c)" and "w = workers c ! t"
    and "cur = idx2 (shared_indexes c) (iter w)" and "bs = local_bins w"
  shows "kBinSizeThreshold = 1000
     \<and> (pc w = FuseTest \<and> cur < length bs \<and> bs ! cur \<noteq> []
          \<and> length (bs ! cur) < kBinSizeThreshold \<longrightarrow>
        step g delta t c =
          Next (put c t (w\<lparr>local_bins := bs[cur := []], pc := FuseBody (bs ! cur)\<rparr>)))
     \<and> (pc w = FuseTest \<and> (length bs \<le> cur \<or> bs ! cur = []) \<longrightarrow>
        step g delta t c = Next (put c t (w\<lparr>pc := Scan\<rparr>)))
     \<and> (pc w = FuseTest \<and> cur < length bs \<and> kBinSizeThreshold \<le> length (bs ! cur) \<longrightarrow>
        step g delta t c = Next (put c t (w\<lparr>pc := Scan\<rparr>)) \<and> first_nonempty cur bs = Some cur)
     \<and> (pc w = FuseBody (u # us) \<longrightarrow>
        step g delta t c = Next (put c t (w\<lparr>pc := edges_loop u (out_neigh g u) (RetFuse us)\<rparr>)))
     \<and> resume (RetFuse us) = FuseBody us
     \<and> (pc w = FuseBody [] \<longrightarrow> step g delta t c = Next (put c t (w\<lparr>pc := FuseTest\<rparr>)))"
proof -
  have "kBinSizeThreshold \<le> length (bs ! cur) \<Longrightarrow> bs ! cur \<noteq> []"
    by (auto simp: kBinSizeThreshold_def)
  then show ?thesis
    using assms
    by (auto simp: step_def Let_def step_FuseTest_def step_FuseBody_def goto_def
        first_nonempty_here kBinSizeThreshold_def)
qed

lemma length_bin_at_threshold: "length bin_at_threshold = 1000"
  by (simp add: bin_at_threshold_def kBinSizeThreshold_def)

lemma cfg_fuse_worker:
  "0 < length (workers (cfg_fuse b))"
  "workers (cfg_fuse b) ! 0 = \<lparr>pc = FuseTest, local_bins = [b], iter = 0\<rparr>"
  "idx2 (shared_indexes (cfg_fuse b)) 0 = 0"
  by (simp_all add: cfg_fuse_def idx2_def)

theorem bucket_fusion_threshold_witness:
  "step [[(1, 1)], []] 1 0 (cfg_fuse [1]) =
     Next (put (cfg_fuse [1]) 0 \<lparr>pc = FuseBody [1], local_bins = [[]], iter = 0\<rparr>)
   \<and> step [[(1, 1)], []] 1 0 (cfg_fuse []) =
     Next (put (cfg_fuse []) 0 \<lparr>pc = Scan, local_bins = [[]], iter = 0\<rparr>)
   \<and> step [[(1, 1)], []] 1 0 (cfg_fuse bin_at_threshold) =
     Next (put (cfg_fuse bin_at_threshold) 0
            \<lparr>pc = Scan, local_bins = [bin_at_threshold], iter = 0\<rparr>)
   \<and> first_nonempty 0 [bin_at_threshold] = Some 0"
proof -
  note inst = bucket_fusion_threshold [OF cfg_fuse_worker(1) refl refl refl,
      where g = "[[(1, 1)], []]" and delta = 1, unfolded cfg_fuse_worker worker.simps nth_Cons_0]
  have 1: "length [1::nat] < kBinSizeThreshold" "kBinSizeThreshold \<le> length bin_at_threshold"
    by (simp_all add: kBinSizeThreshold_def length_bin_at_threshold)
  from inst [of "[1]"] 1(1)
  have "step [[(1, 1)], []] 1 0 (cfg_fuse [1]) =
     Next (put (cfg_fuse [1]) 0 (\<lparr>pc = FuseTest, local_bins = [[1]], iter = 0\<rparr>
        \<lparr>local_bins := [[1]][0 := []], pc := FuseBody [1]\<rparr>))"
    by simp
  moreover from inst [of "[]"]
  have "step [[(1, 1)], []] 1 0 (cfg_fuse []) =
     Next (put (cfg_fuse []) 0 (\<lparr>pc = FuseTest, local_bins = [[]], iter = 0\<rparr>\<lparr>pc := Scan\<rparr>))"
    by simp
  moreover from inst [of bin_at_threshold] 1(2)
  have "step [[(1, 1)], []] 1 0 (cfg_fuse bin_at_threshold) =
     Next (put (cfg_fuse bin_at_threshold) 0
        (\<lparr>pc = FuseTest, local_bins = [bin_at_threshold], iter = 0\<rparr>\<lparr>pc := Scan\<rparr>))
     \<and> first_nonempty 0 [bin_at_threshold] = Some 0"
    by simp
  ultimately show ?thesis by simp
qed

section \<open>The capacity of the frontier\<close>

lemma wf_graph_refile: "wf_graph graph_refile"
  by (auto simp: wf_graph_def graph_refile_def WeightT_max_def less_Suc_eq numeral_eq_Suc)

text \<open>
  Claim C8 fails on the code. On \<open>graph_refile\<close> with source 0 and \<open>delta = 10\<close>, one
  worker: the capacity of \<open>frontier\<close> is 7; in the first iteration vertex 1 is relaxed
  twice by bucket fusion (at distance 5, then at distance 2), and each time its four
  out-edges install a smaller distance of band 1, so the bin of band 1 holds 8 entries;
  the promotion then writes \<open>frontier[0 .. 7]\<close>, past the end.
\<close>

theorem frontier_overflow_failing_input:
  "num_edges_directed graph_refile = 7
   \<and> run graph_refile 10 (replicate 49 0)
        \<lparr>dist = [0, kDistInf, kDistInf, kDistInf, kDistInf, kDistInf, kDistInf],
          frontier = [0, 0, 0, 0, 0, 0, 0], shared_indexes = (0, kMaxBin),
          frontier_tails = (1, 0), for_next = 0, single_done = False,
          workers = [\<lparr>pc = LoopTop, local_bins = [], iter = 0\<rparr>]\<rparr>
       = Inr \<lparr>dist = [0, 2, 1, 12, 12, 12, 12], frontier = [0, 0, 0, 0, 0, 0, 0],
              shared_indexes = (kMaxBin, 1), frontier_tails = (0, 0), for_next = 64,
              single_done = True,
              workers = [\<lparr>pc = Promote, local_bins = [[], [3, 4, 5, 6, 3, 4, 5, 6]],
                          iter = 0\<rparr>]\<rparr>
   \<and> DeltaStep graph_refile 0 10 1 (replicate 50 0) = Some (Inl OutOfBounds)"
  by (simp add: graph_refile_def arith_defs step_defs replicate_numeral_Cons)

section \<open>A delta that is not positive\<close>

text \<open>
  Claim C10, as stated, fails. With \<open>delta = 0\<close> the first successful relaxation divides
  by zero; with \<open>delta = -1\<close> the quotient \<open>new_dist / delta\<close> is negative and, as a
  \<open>size_t\<close>, no index of a bin: for the quotient \<open>-1\<close> the resize wraps to size 0 and the
  bin is indexed past the end, for the quotient \<open>-2\<close> the resize exceeds \<open>max_size()\<close>.
\<close>

theorem nonpositive_delta_counterexample:
  "DeltaStep [[(1, 1)], []] 0 0 1 (replicate 6 0) = Some (Inl DivByZero)
   \<and> DeltaStep [[(1, 1)], []] 0 (- 1) 1 (replicate 6 0) = Some (Inl OutOfBounds)
   \<and> DeltaStep [[(1, 2)], []] 0 (- 1) 1 (replicate 6 0) = Some (Inl LengthError)"
  by (simp add: arith_defs step_defs replicate_numeral_Cons)

text \<open>
  Claim C10, amended: for \<open>delta \<le> 0\<close> the bin-index computation of \<open>RelaxEdges\<close> on an
  installed distance \<open>d\<close> is defined only when \<open>delta < 0\<close> and \<open>d < -delta\<close>, where the
  index is 0. With \<open>delta = 0\<close> it is a division by zero, and with \<open>delta < 0\<close> and
  \<open>d \<ge> -delta\<close> it fails (an index past the end of the bins, or a resize beyond
  \<open>max_size()\<close>), so \<open>DeltaStep\<close> does not return distances then.
\<close>

theorem nonpositive_delta_bin_index:
  assumes "delta \<le> 0" and "0 \<le> d" and "d \<le> WeightT_max" and "length bs \<le> vector_max_size"
  shows "(delta = 0 \<longrightarrow> file_bin delta d v bs = Inl DivByZero)
       \<and> (delta < 0 \<and> - delta \<le> d \<longrightarrow>
            file_bin delta d v bs = Inl OutOfBounds \<or> file_bin delta d v bs = Inl LengthError)
       \<and> (delta < 0 \<and> d < - delta \<longrightarrow> dest_bin_of d delta = Inr 0)"
  using assms file_bin_neg_large [of delta d bs v] dest_bin_of_neg_small [of delta d]
  by (auto simp: file_bin_def dest_bin_of_def div_WeightT_def)

theorem nonpositive_delta_bin_index_witness:
  "file_bin 0 5 1 [] = Inl DivByZero
   \<and> (file_bin (- 2) 5 1 [] = Inl OutOfBounds \<or> file_bin (- 2) 5 1 [] = Inl LengthError)
   \<and> dest_bin_of 5 (- 7) = Inr 0"
  using nonpositive_delta_bin_index [of 0 5 "[]" 1]
    nonpositive_delta_bin_index [of "- 2" 5 "[]" 1]
    nonpositive_delta_bin_index [of "- 7" 5 "[]" 1]
  by (simp add: WeightT_max_def vector_max_size_def)

end
